theory Spec2Isabelle
  imports Complex_Main "HOL-Library.Sublist"
begin

section \<open>JavaScript strings\<close>

text \<open>
  A JavaScript string is modelled as a \<^typ>\<open>string\<close>: one \<^typ>\<open>char\<close> stands for one
  UTF-16 code unit, so the model covers the strings whose code units are below 256.
  \<^verbatim>\<open>s.slice(0, -3)\<close> keeps the first \<open>max (length s - 3) 0\<close> code units,
  \<^verbatim>\<open>s.startsWith(p)\<close> and \<^verbatim>\<open>s.endsWith(p)\<close> are the prefix and suffix tests.
\<close>

definition slice_0_m3 :: "string \<Rightarrow> string" where
  "slice_0_m3 s = take (length s - 3) s"

definition startsWith :: "string \<Rightarrow> string \<Rightarrow> bool" where
  "startsWith s p = prefix p s"

definition endsWith :: "string \<Rightarrow> string \<Rightarrow> bool" where
  "endsWith s p = suffix p s"

text \<open>\<^verbatim>\<open>Array.prototype.join\<close> and \<^verbatim>\<open>String.prototype.split\<close> on one separator
  character.\<close>

fun join_with :: "string \<Rightarrow> string list \<Rightarrow> string" where
  "join_with sep [] = []"
| "join_with sep [x] = x"
| "join_with sep (x # y # zs) = x @ sep @ join_with sep (y # zs)"

fun split_on :: "char \<Rightarrow> string \<Rightarrow> string list" where
  "split_on c [] = [[]]"
| "split_on c (x # xs) =
     (if x = c then [] # split_on c xs
      else (case split_on c xs of
              [] \<Rightarrow> [[x]]
            | s # ss \<Rightarrow> (x # s) # ss))"

section \<open>The POSIX flavour of Node's path module\<close>

text \<open>
  \<^verbatim>\<open>index.ts\<close> imports \<^verbatim>\<open>node:path\<close> and uses \<^verbatim>\<open>dirname\<close>, \<^verbatim>\<open>basename\<close>,
  \<^verbatim>\<open>join\<close>, \<^verbatim>\<open>resolve\<close> and \<^verbatim>\<open>relative\<close>. They are pure functions of strings (and,
  for \<^verbatim>\<open>resolve\<close>, of the working directory), written here after Node's
  \<^verbatim>\<open>lib/path.js\<close>, \<^verbatim>\<open>posix\<close> object.

  \<^verbatim>\<open>normalizeString\<close> walks the \<open>/\<close>-separated segments: an empty segment and \<open>.\<close>
  are dropped; \<open>..\<close> removes the last kept segment unless there is none or it is
  \<open>..\<close> itself, in which case \<open>..\<close> is kept when \<open>allowAboveRoot\<close> holds and dropped
  otherwise; any other segment is kept.
\<close>

fun norm_segs :: "bool \<Rightarrow> string list \<Rightarrow> string list \<Rightarrow> string list" where
  "norm_segs allowAboveRoot [] res = res"
| "norm_segs allowAboveRoot (seg # rest) res =
     (if seg = [] \<or> seg = ''.'' then norm_segs allowAboveRoot rest res
      else if seg = ''..'' then
        (if res \<noteq> [] \<and> last res \<noteq> ''..'' then norm_segs allowAboveRoot rest (butlast res)
         else if allowAboveRoot then norm_segs allowAboveRoot rest (res @ [''..''])
         else norm_segs allowAboveRoot rest res)
      else norm_segs allowAboveRoot rest (res @ [seg]))"

definition normalizeString :: "string \<Rightarrow> bool \<Rightarrow> string" where
  "normalizeString path allowAboveRoot =
     join_with ''/'' (norm_segs allowAboveRoot (split_on CHR ''/'' path) [])"

definition normalize :: "string \<Rightarrow> string" where
  "normalize path =
     (if path = [] then ''.''
      else
        let isAbsolute = (hd path = CHR ''/'');
            trailingSeparator = (last path = CHR ''/'');
            p = normalizeString path (\<not> isAbsolute)
        in if p = [] then
             (if isAbsolute then ''/'' else if trailingSeparator then ''./'' else ''.'')
           else
             let p' = (if trailingSeparator then p @ ''/'' else p)
             in if isAbsolute then CHR ''/'' # p' else p')"

text \<open>\<^verbatim>\<open>path.join(...args)\<close>: the non-empty arguments joined by \<open>/\<close>, normalised.\<close>

definition join :: "string list \<Rightarrow> string" where
  "join args =
     (let parts = filter (\<lambda>a. a \<noteq> []) args
      in if parts = [] then ''.'' else normalize (join_with ''/'' parts))"

text \<open>
  \<^verbatim>\<open>path.dirname\<close> scans from the end down to index 1: it skips the trailing
  slashes and the last segment, and cuts at the slash before that segment
  (\<open>end\<close>); index 0 is never inspected. Here \<open>r\<close> is the reversed text of the
  indices \<open>1 .. end\<close>, so \<open>end = length r\<close>.
\<close>

definition dirname :: "string \<Rightarrow> string" where
  "dirname path =
     (if path = [] then ''.''
      else
        let hasRoot = (hd path = CHR ''/'');
            r = dropWhile (\<lambda>c. c \<noteq> CHR ''/'') (dropWhile (\<lambda>c. c = CHR ''/'') (rev (tl path)))
        in if r = [] then (if hasRoot then ''/'' else ''.'')
           else if hasRoot \<and> length r = 1 then ''//''
           else take (length r) path)"

text \<open>
  \<^verbatim>\<open>path.basename(path)\<close> without a suffix argument: the last segment, trailing
  slashes ignored.
\<close>

definition basename :: "string \<Rightarrow> string" where
  "basename path =
     rev (takeWhile (\<lambda>c. c \<noteq> CHR ''/'') (dropWhile (\<lambda>c. c = CHR ''/'') (rev path)))"

text \<open>
  \<^verbatim>\<open>path.resolve(...args)\<close> prepends arguments from the right until one is
  absolute, then the working directory; empty arguments are skipped.
\<close>

fun resolve_prepend :: "string list \<Rightarrow> string \<Rightarrow> string \<times> bool" where
  "resolve_prepend [] resolvedPath = (resolvedPath, False)"
| "resolve_prepend (path # more) resolvedPath =
     (if path = [] then resolve_prepend more resolvedPath
      else if hd path = CHR ''/'' then (path @ ''/'' @ resolvedPath, True)
      else resolve_prepend more (path @ ''/'' @ resolvedPath))"

definition resolve :: "string \<Rightarrow> string list \<Rightarrow> string" where
  "resolve cwd args =
     (let (resolvedPath, resolvedAbsolute) = resolve_prepend (rev args @ [cwd]) [];
          p = normalizeString resolvedPath (\<not> resolvedAbsolute)
      in if resolvedAbsolute then CHR ''/'' # p
         else if p \<noteq> [] then p else ''.'')"

text \<open>
  \<^verbatim>\<open>path.relative(from, to)\<close>: both paths are resolved; the segments they
  share from the root are dropped, every remaining segment of \<open>from\<close> becomes
  \<open>..\<close>, and the remaining segments of \<open>to\<close> follow. Node compares the two
  resolved paths character by character behind their leading \<open>/\<close>; on resolved
  paths, which are absolute and in normal form whenever the working directory
  is absolute, that is the comparison of their segments written here.
\<close>

fun drop_common :: "string list \<Rightarrow> string list \<Rightarrow> string list \<times> string list" where
  "drop_common (x # xs) (y # ys) =
     (if x = y then drop_common xs ys else (x # xs, y # ys))"
| "drop_common xs ys = (xs, ys)"

definition path_segments :: "string \<Rightarrow> string list" where
  "path_segments p = filter (\<lambda>s. s \<noteq> []) (split_on CHR ''/'' p)"

definition relative :: "string \<Rightarrow> string \<Rightarrow> string \<Rightarrow> string" where
  "relative cwd from to =
     (if from = to then []
      else
        let from' = resolve cwd [from];
            to' = resolve cwd [to]
        in if from' = to' then []
           else
             let (fs, ts) = drop_common (path_segments from') (path_segments to')
             in join_with ''/'' (map (\<lambda>_. ''..'') fs @ ts))"

section \<open>JavaScript values and exceptions\<close>

text \<open>
  The values \<^verbatim>\<open>JSON.parse\<close> can return, and \<^verbatim>\<open>undefined\<close>. An object is the list
  of its own properties, one entry per key. Of a number only its being zero
  matters to this program.
\<close>

datatype jsval =
    JUndefined
  | JNull
  | JBool bool
  | JNum rat
  | JStr string
  | JArr "jsval list"
  | JObj "(string \<times> jsval) list"

text \<open>A thrown value: an \<^verbatim>\<open>Error\<close> instance with its message, or anything else.\<close>

datatype exn = JsError string | JsThrown string

fun truthy :: "jsval \<Rightarrow> bool" where
  "truthy JUndefined = False"
| "truthy JNull = False"
| "truthy (JBool b) = b"
| "truthy (JNum n) = (n \<noteq> 0)"
| "truthy (JStr s) = (s \<noteq> [])"
| "truthy (JArr _) = True"
| "truthy (JObj _) = True"

text \<open>
  Property read \<^verbatim>\<open>v.key\<close>, for the keys this program reads
  (\<^verbatim>\<open>compilerOptions\<close>, \<^verbatim>\<open>outDir\<close>, \<^verbatim>\<open>rootDir\<close>, \<^verbatim>\<open>sourceMap\<close>), none of which
  is inherited from a prototype: on \<^verbatim>\<open>null\<close> and \<^verbatim>\<open>undefined\<close> the read throws a
  \<^verbatim>\<open>TypeError\<close>, on an object it finds the own property, anywhere else it is
  \<^verbatim>\<open>undefined\<close>.
\<close>

fun get_prop :: "jsval \<Rightarrow> string \<Rightarrow> exn + jsval" where
  "get_prop JUndefined key = Inl (JsError ''TypeError: Cannot read properties of undefined'')"
| "get_prop JNull key = Inl (JsError ''TypeError: Cannot read properties of null'')"
| "get_prop (JObj props) key =
     (case map_of props key of None \<Rightarrow> Inr JUndefined | Some v \<Rightarrow> Inr v)"
| "get_prop v key = Inr JUndefined"

section \<open>The surroundings of the module\<close>

text \<open>The arguments of the three wrapped operations.\<close>

datatype path_like = PathString string | PathBuffer string | PathURL string

datatype payload = Text string | Bytes string

record open_args =
  o_path :: path_like
  o_rest :: "jsval list"

record write_args =
  w_fd :: int
  w_data :: payload
  w_rest :: "jsval list"

text \<open>What \<^verbatim>\<open>vue-simple-compiler\<close> is called with and what it returns.\<close>

datatype srcmap = SourceMap string

record compile_options =
  root :: string
  filename :: string
  autoImportCss :: bool
  autoResolveImports :: bool
  isProd :: bool
  ts_target :: string
  ts_module :: string
  ts_jsx :: string
  ts_sourceMap :: bool

record css_file =
  css_filename :: string
  css_code :: string
  css_sourceMap :: "srcmap option"

record compile_result =
  js_code :: string
  js_sourceMap :: "srcmap option"
  css :: "css_file list"
  errors :: "string list"

text \<open>
  Everything the module calls and does not define: the file system functions
  of \<^verbatim>\<open>node:fs\<close> before they are wrapped, \<^verbatim>\<open>JSON\<close>, the component compiler and
  the working directory. \<open>'w\<close> is the state of the operating system (the
  disk, the descriptors). A call that can throw returns an \<^typ>\<open>exn\<close> on the
  left; \<^verbatim>\<open>fs.existsSync\<close> never throws. \<^verbatim>\<open>process.cwd()\<close> is taken to be an
  absolute path that stays the same during the run. \<^verbatim>\<open>console.error\<close> only adds
  a line to the error log.
\<close>

record 'w node =
  process_cwd :: string
  existsSync :: "'w \<Rightarrow> string \<Rightarrow> bool"
  readFileSync :: "'w \<Rightarrow> string \<Rightarrow> exn + string"
  JSON_parse :: "string \<Rightarrow> exn + jsval"
  JSON_stringify :: "srcmap \<Rightarrow> string"
  compileVueSFC :: "'w \<Rightarrow> string \<Rightarrow> compile_options \<Rightarrow> exn + compile_result"
  nativeOpenSync :: "open_args \<Rightarrow> 'w \<Rightarrow> (exn + int) \<times> 'w"
  nativeWriteSync :: "write_args \<Rightarrow> 'w \<Rightarrow> (exn + int) \<times> 'w"
  nativeCloseSync :: "int \<Rightarrow> 'w \<Rightarrow> (exn + unit) \<times> 'w"

text \<open>The record \<^verbatim>\<open>getTsConfigPaths\<close> returns and caches.\<close>

record settings =
  outDir :: string
  rootDir :: string
  sourceMap :: bool

text \<open>
  The module's state: its two maps, the operating system, and two logs the
  model keeps to state what happened: the calls made to the unwrapped
  operations, each with its outcome, and the lines sent to \<^verbatim>\<open>console.error\<close>.
\<close>

datatype native_call =
    NOpen open_args "exn + int"
  | NWrite write_args "exn + int"
  | NClose int "exn + unit"

datatype log_line =
    FailedToParseTsconfig exn
  | CouldNotResolve string
  | ErrorsCompiling string
  | CompileError string
  | FailedToCompile string

record 'w state =
  fdToPath :: "int \<rightharpoonup> string"
  tsconfigCache :: "string \<rightharpoonup> settings"
  world :: 'w
  calls :: "native_call list"
  stderr :: "log_line list"

definition console_error :: "log_line \<Rightarrow> 'w state \<Rightarrow> 'w state" where
  "console_error l s = s\<lparr>stderr := stderr s @ [l]\<rparr>"

definition native_open :: "'w node \<Rightarrow> open_args \<Rightarrow> 'w state \<Rightarrow> (exn + int) \<times> 'w state" where
  "native_open N args s =
     (let (r, w') = nativeOpenSync N args (world s)
      in (r, s\<lparr>world := w', calls := calls s @ [NOpen args r]\<rparr>))"

definition native_write :: "'w node \<Rightarrow> write_args \<Rightarrow> 'w state \<Rightarrow> (exn + int) \<times> 'w state" where
  "native_write N args s =
     (let (r, w') = nativeWriteSync N args (world s)
      in (r, s\<lparr>world := w', calls := calls s @ [NWrite args r]\<rparr>))"

definition native_close :: "'w node \<Rightarrow> int \<Rightarrow> 'w state \<Rightarrow> (exn + unit) \<times> 'w state" where
  "native_close N fd s =
     (let (r, w') = nativeCloseSync N fd (world s)
      in (r, s\<lparr>world := w', calls := calls s @ [NClose fd r]\<rparr>))"

section \<open>Config resolver\<close>

text \<open>
  The conditional rewrite rule \<open>dropWhile_id\<close> sends the simplifier into a loop on
  the two nested scans of \<^verbatim>\<open>dirname\<close>; it is taken out of the simpset.
\<close>

declare dropWhile_id [simp del]

text \<open>
  \<^verbatim>\<open>findTsConfig\<close>: the loop runs while \<open>dir\<close> differs from its own
  \<^verbatim>\<open>dirname\<close>; the directory at which the two agree is not probed. The loop
  ends because \<^verbatim>\<open>dirname\<close> shortens every string but its two fixed points.
\<close>

lemma dirname_Cons:
  "dirname (c # cs) =
     (let r = dropWhile (\<lambda>c. c \<noteq> CHR ''/'') (dropWhile (\<lambda>c. c = CHR ''/'') (rev cs))
      in if r = [] then (if c = CHR ''/'' then ''/'' else ''.'')
         else if c = CHR ''/'' \<and> length r = 1 then ''//''
         else take (length r) (c # cs))"
  unfolding dirname_def Let_def
  by (simp only: list.sel list.simps if_False)

lemma dirname_dot: "dirname ''.'' = ''.''"
  by (simp add: dirname_def)

lemma dirname_root: "dirname ''/'' = ''/''"
  by (simp add: dirname_def)

lemma dirname_cases:
  "dirname dir = ''.'' \<or> dirname dir = ''/'' \<or> (dirname dir = ''//'' \<and> 2 < length dir)
   \<or> (length (dirname dir) < length dir)"
proof (cases dir)
  case Nil
  then show ?thesis by (simp add: dirname_def)
next
  case (Cons c cs)
  define r where "r = dropWhile (\<lambda>c. c \<noteq> CHR ''/'') (dropWhile (\<lambda>c. c = CHR ''/'') (rev cs))"
  have len_r: "length r \<le> length cs"
    unfolding r_def by (metis length_dropWhile_le le_trans length_rev)
  have d: "dirname dir = (if r = [] then (if c = CHR ''/'' then ''/'' else ''.'')
         else if c = CHR ''/'' \<and> length r = 1 then ''//''
         else take (length r) (c # cs))"
    unfolding Cons dirname_Cons r_def Let_def ..
  show ?thesis
  proof (cases "r = []")
    case True
    with d show ?thesis by simp
  next
    case r: False
    show ?thesis
    proof (cases "c = CHR ''/'' \<and> length r = 1")
      case True
      with d r have "dirname dir = ''//''" by simp
      moreover have "length cs \<noteq> 1"
      proof
        assume "length cs = 1"
        then obtain x where cs: "cs = [x]" by (cases cs) auto
        from True r show False unfolding r_def cs by (cases "x = CHR ''/''") simp_all
      qed
      moreover have "cs \<noteq> []" using r unfolding r_def by auto
      ultimately show ?thesis using Cons by (cases cs) auto
    next
      case False
      with d r have "dirname dir = take (length r) (c # cs)" by simp
      with len_r Cons show ?thesis by simp
    qed
  qed
qed

definition walk_measure :: "string \<Rightarrow> nat" where
  "walk_measure dir = (if dir = ''.'' \<or> dir = ''/'' then 0 else Suc (length dir))"

lemma dirname_smaller:
  assumes "dir \<noteq> dirname dir"
  shows "walk_measure (dirname dir) < walk_measure dir"
proof -
  from assms have notfix: "dir \<noteq> ''.''" "dir \<noteq> ''/''"
    using dirname_dot dirname_root by auto
  from dirname_cases [of dir] show ?thesis
  proof (elim disjE)
    assume "dirname dir = ''.''" with notfix show ?thesis by (simp add: walk_measure_def)
  next
    assume "dirname dir = ''/''" with notfix show ?thesis by (simp add: walk_measure_def)
  next
    assume "dirname dir = ''//'' \<and> 2 < length dir"
    with notfix show ?thesis by (simp add: walk_measure_def)
  next
    assume "length (dirname dir) < length dir"
    with notfix show ?thesis by (simp add: walk_measure_def)
  qed
qed

function walk_up :: "(string \<Rightarrow> bool) \<Rightarrow> string \<Rightarrow> string option" where
  "walk_up ex dir =
     (if dir \<noteq> dirname dir then
        (let tsconfigPath = join [dir, ''tsconfig.json'']
         in if ex tsconfigPath then Some tsconfigPath
            else walk_up ex (dirname dir))
      else None)"
  by pat_completeness auto
termination
  by (relation "measure (\<lambda>(ex, dir). walk_measure dir)") (simp_all add: dirname_smaller)

declare walk_up.simps [simp del]

definition findTsConfig :: "'w node \<Rightarrow> 'w \<Rightarrow> string \<Rightarrow> string option" where
  "findTsConfig N w filePath = walk_up (existsSync N w) (dirname filePath)"

text \<open>
  The comment stripper
  \<^verbatim>\<open>tsconfigContent.replace(/\/\*[\s\S]*?\*\/|\/\/.*/g, '')\<close>: scanning from the
  left, a \<open>/*\<close> that has a later \<open>*/\<close> is removed up to the first such \<open>*/\<close>; a
  \<open>//\<close> is removed up to the next line terminator; any other character is
  kept. The regular expression does not know about string literals.
\<close>

fun after_close :: "string \<Rightarrow> string option" where
  "after_close (a # b # cs) =
     (if a = CHR ''*'' \<and> b = CHR ''/'' then Some cs else after_close (b # cs))"
| "after_close cs = None"

definition line_terminator :: "char \<Rightarrow> bool" where
  "line_terminator c = (c = CHR 0x0A \<or> c = CHR 0x0D)"

lemma after_close_length: "after_close cs = Some rest \<Longrightarrow> length rest < length cs"
  by (induction cs arbitrary: rest rule: after_close.induct) (auto split: if_splits)

function strip_comments :: "string \<Rightarrow> string" where
  "strip_comments (a # b # cs) =
     (if a = CHR ''/'' \<and> b = CHR ''*'' then
        (case after_close cs of
           Some rest \<Rightarrow> strip_comments rest
         | None \<Rightarrow> a # strip_comments (b # cs))
      else if a = CHR ''/'' \<and> b = CHR ''/'' then
        strip_comments (dropWhile (\<lambda>c. \<not> line_terminator c) cs)
      else a # strip_comments (b # cs))"
| "strip_comments [a] = [a]"
| "strip_comments [] = []"
  by pat_completeness auto
termination
proof (relation "measure length")
  show "wf (measure length)" by simp
next
  fix a b :: char and cs rest :: string
  assume "after_close cs = Some rest"
  then show "(rest, a # b # cs) \<in> measure length"
    using after_close_length [of cs rest] by simp
next
  fix a b :: char and cs :: string
  show "(dropWhile (\<lambda>c. \<not> line_terminator c) cs, a # b # cs) \<in> measure length"
    using length_dropWhile_le [of "\<lambda>c. \<not> line_terminator c" cs] by simp
qed simp_all

text \<open>
  The body of the \<^verbatim>\<open>try\<close> of \<^verbatim>\<open>getTsConfigPaths\<close>, up to the record it builds:
  first the file is read, stripped and parsed and \<^verbatim>\<open>tsconfig.compilerOptions || {}\<close>
  is taken, then the three options are read from it. \<^verbatim>\<open>path.resolve\<close> throws on
  an argument that is not a string.
\<close>

definition resolve_option :: "string \<Rightarrow> string \<Rightarrow> jsval \<Rightarrow> exn + string" where
  "resolve_option cwd projectRoot v =
     (if truthy v then
        (case v of
           JStr s \<Rightarrow> Inr (resolve cwd [projectRoot, s])
         | _ \<Rightarrow> Inl (JsError ''TypeError [ERR_INVALID_ARG_TYPE]''))
      else Inr projectRoot)"

definition read_compilerOptions :: "'w node \<Rightarrow> 'w \<Rightarrow> string \<Rightarrow> exn + jsval" where
  "read_compilerOptions N w tsconfigPath =
     (case readFileSync N w tsconfigPath of
        Inl e \<Rightarrow> Inl e
      | Inr tsconfigContent \<Rightarrow>
          let jsonContent = strip_comments tsconfigContent
          in (case JSON_parse N jsonContent of
                Inl e \<Rightarrow> Inl e
              | Inr tsconfig \<Rightarrow>
                  (case get_prop tsconfig ''compilerOptions'' of
                     Inl e \<Rightarrow> Inl e
                   | Inr co \<Rightarrow> Inr (if truthy co then co else JObj []))))"

definition settings_of :: "string \<Rightarrow> string \<Rightarrow> jsval \<Rightarrow> exn + settings" where
  "settings_of cwd projectRoot compilerOptions =
     (case get_prop compilerOptions ''outDir'' of
        Inl e \<Rightarrow> Inl e
      | Inr od \<Rightarrow>
          (case resolve_option cwd projectRoot od of
             Inl e \<Rightarrow> Inl e
           | Inr outDir' \<Rightarrow>
               (case get_prop compilerOptions ''rootDir'' of
                  Inl e \<Rightarrow> Inl e
                | Inr rd \<Rightarrow>
                    (case resolve_option cwd projectRoot rd of
                       Inl e \<Rightarrow> Inl e
                     | Inr rootDir' \<Rightarrow>
                         (case get_prop compilerOptions ''sourceMap'' of
                            Inl e \<Rightarrow> Inl e
                          | Inr sm \<Rightarrow>
                              Inr \<lparr>outDir = outDir', rootDir = rootDir',
                                   sourceMap = (sm = JBool True)\<rparr>)))))"

definition read_settings :: "'w node \<Rightarrow> 'w \<Rightarrow> string \<Rightarrow> exn + settings" where
  "read_settings N w tsconfigPath =
     (case read_compilerOptions N w tsconfigPath of
        Inl e \<Rightarrow> Inl e
      | Inr compilerOptions \<Rightarrow>
          settings_of (process_cwd N) (dirname tsconfigPath) compilerOptions)"

definition getTsConfigPaths ::
  "'w node \<Rightarrow> string \<Rightarrow> 'w state \<Rightarrow> settings option \<times> 'w state" where
  "getTsConfigPaths N filePath s =
     (case findTsConfig N (world s) filePath of
        None \<Rightarrow> (None, s)
      | Some tsconfigPath \<Rightarrow>
          if tsconfigPath = [] then (None, s)
          else
            (case tsconfigCache s tsconfigPath of
               Some cached \<Rightarrow> (Some cached, s)
             | None \<Rightarrow>
                 (case read_settings N (world s) tsconfigPath of
                    Inr result \<Rightarrow>
                      (Some result,
                       s\<lparr>tsconfigCache := (tsconfigCache s)(tsconfigPath \<mapsto> result)\<rparr>)
                  | Inl err \<Rightarrow> (None, console_error (FailedToParseTsconfig err) s))))"

section \<open>Path mapper\<close>

definition resolveVueFilePath ::
  "'w node \<Rightarrow> string \<Rightarrow> 'w state \<Rightarrow> string option \<times> 'w state" where
  "resolveVueFilePath N jsFilePath s =
     (case getTsConfigPaths N jsFilePath s of
        (None, s') \<Rightarrow> (Some (slice_0_m3 jsFilePath), s')
      | (Some paths, s') \<Rightarrow>
          if \<not> startsWith jsFilePath (outDir paths) then (Some (slice_0_m3 jsFilePath), s')
          else
            let relativePath = relative (process_cwd N) (outDir paths) jsFilePath;
                vueFilePath = slice_0_m3 (join [rootDir paths, relativePath])
            in (Some vueFilePath, s'))"

definition shouldGenerateSourceMap :: "'w node \<Rightarrow> string \<Rightarrow> 'w state \<Rightarrow> bool \<times> 'w state" where
  "shouldGenerateSourceMap N jsFilePath s =
     (case getTsConfigPaths N jsFilePath s of
        (None, s') \<Rightarrow> (True, s')
      | (Some paths, s') \<Rightarrow> (sourceMap paths, s'))"

section \<open>Write interceptor\<close>



text \<open>
  The three unwrapped calls that write one extra file
  (\<^verbatim>\<open>nativeOpenSync(p, 'w')\<close>, \<^verbatim>\<open>nativeWriteSync\<close>, \<^verbatim>\<open>nativeCloseSync\<close>); the first
  that throws ends the sequence.
\<close>

definition write_aside :: "'w node \<Rightarrow> string \<Rightarrow> string \<Rightarrow> 'w state \<Rightarrow> (exn + unit) \<times> 'w state" where
  "write_aside N path text s =
     (case native_open N \<lparr>o_path = PathString path, o_rest = [JStr ''w'']\<rparr> s of
        (Inl e, s1) \<Rightarrow> (Inl e, s1)
      | (Inr fd, s1) \<Rightarrow>
          (case native_write N \<lparr>w_fd = fd, w_data = Text text, w_rest = []\<rparr> s1 of
             (Inl e, s2) \<Rightarrow> (Inl e, s2)
           | (Inr n, s2) \<Rightarrow> native_close N fd s2))"

text \<open>One round of the loop over \<^verbatim>\<open>result.css\<close>, and the loop.\<close>

definition write_css_file ::
  "'w node \<Rightarrow> string \<Rightarrow> bool \<Rightarrow> css_file \<Rightarrow> 'w state \<Rightarrow> (exn + unit) \<times> 'w state" where
  "write_css_file N filePath sourceMap' cssFile s =
     (let cssPath = resolve (process_cwd N) [dirname filePath, css_filename cssFile];
          cssFileName = basename cssPath
      in case (if sourceMap' then css_sourceMap cssFile else None) of
           Some m \<Rightarrow>
             (case write_aside N (cssPath @ ''.map'') (JSON_stringify N m) s of
                (Inl e, s1) \<Rightarrow> (Inl e, s1)
              | (Inr u, s1) \<Rightarrow>
                  write_aside N cssPath
                    (css_code cssFile @ [CHR 0x0A] @ ''/*# sourceMappingURL='' @ cssFileName @ ''.map */'')
                    s1)
         | None \<Rightarrow> write_aside N cssPath (css_code cssFile) s)"

fun write_css_files ::
  "'w node \<Rightarrow> string \<Rightarrow> bool \<Rightarrow> css_file list \<Rightarrow> 'w state \<Rightarrow> (exn + unit) \<times> 'w state" where
  "write_css_files N filePath sourceMap' [] s = (Inr (), s)"
| "write_css_files N filePath sourceMap' (cssFile # others) s =
     (case write_css_file N filePath sourceMap' cssFile s of
        (Inl e, s1) \<Rightarrow> (Inl e, s1)
      | (Inr u, s1) \<Rightarrow> write_css_files N filePath sourceMap' others s1)"

text \<open>
  The part of the \<^verbatim>\<open>try\<close> block after a compilation without errors: the
  script map, the style files, and the real write of the compiled script.
\<close>

definition emit_compiled ::
  "'w node \<Rightarrow> write_args \<Rightarrow> string \<Rightarrow> bool \<Rightarrow> compile_result \<Rightarrow> 'w state
     \<Rightarrow> (exn + int) \<times> 'w state" where
  "emit_compiled N args filePath sourceMap' result s =
     (let jsFileName = basename filePath
      in case (case (if sourceMap' then js_sourceMap result else None) of
                 Some m \<Rightarrow>
                   (case write_aside N (filePath @ ''.map'') (JSON_stringify N m) s of
                      (Inl e, s1) \<Rightarrow> (Inl e, s1)
                    | (Inr u, s1) \<Rightarrow>
                        (Inr (js_code result @ [CHR 0x0A] @ ''//# sourceMappingURL=''
                                @ jsFileName @ ''.map''), s1))
               | None \<Rightarrow> (Inr (js_code result), s)) of
           (Inl e, s1) \<Rightarrow> (Inl e, s1)
         | (Inr jsCode, s1) \<Rightarrow>
             (case write_css_files N filePath sourceMap' (css result) s1 of
                (Inl e, s2) \<Rightarrow> (Inl e, s2)
              | (Inr u, s2) \<Rightarrow> native_write N (args\<lparr>w_data := Text jsCode\<rparr>) s2))"

text \<open>
  The \<^verbatim>\<open>try\<close> block of the wrapped write. \<open>Inl e\<close>: \<open>e\<close> was thrown inside
  the block; \<open>Inr (Some n)\<close>: the block returned \<open>n\<close>; \<open>Inr None\<close>: the source
  file does not exist and control leaves the block.
\<close>

definition try_block ::
  "'w node \<Rightarrow> write_args \<Rightarrow> string \<Rightarrow> string \<Rightarrow> 'w state \<Rightarrow> (exn + int option) \<times> 'w state" where
  "try_block N args filePath vueFilePath s =
     (if existsSync N (world s) vueFilePath then
        (case readFileSync N (world s) vueFilePath of
           Inl e \<Rightarrow> (Inl e, s)
         | Inr vueCode \<Rightarrow>
             let srcDir = dirname vueFilePath;
                 filename' = basename vueFilePath;
                 (sourceMap', s1) = shouldGenerateSourceMap N filePath s
             in (case compileVueSFC N (world s1) vueCode
                        \<lparr>root = srcDir, filename = filename', autoImportCss = True,
                         autoResolveImports = True, isProd = True,
                         ts_target = ''ES2020'', ts_module = ''ESNext'',
                         ts_jsx = ''ReactJSX'', ts_sourceMap = sourceMap'\<rparr> of
                   Inl e \<Rightarrow> (Inl e, s1)
                 | Inr result \<Rightarrow>
                     if errors result \<noteq> [] then
                       (let s2 = fold (\<lambda>err. console_error (CompileError err)) (errors result)
                                   (console_error (ErrorsCompiling vueFilePath) s1)
                        in case native_write N args s2 of
                             (Inl e, s3) \<Rightarrow> (Inl e, s3)
                           | (Inr n, s3) \<Rightarrow> (Inr (Some n), s3))
                     else
                       (case emit_compiled N args filePath sourceMap' result s1 of
                          (Inl e, s3) \<Rightarrow> (Inl e, s3)
                        | (Inr n, s3) \<Rightarrow> (Inr (Some n), s3))))
      else (Inr None, s))"

text \<open>The message of the \<^verbatim>\<open>catch\<close>: \<^verbatim>\<open>err.message\<close> of an \<^verbatim>\<open>Error\<close>, else the value.\<close>

fun catch_line :: "exn \<Rightarrow> log_line" where
  "catch_line (JsError message) = FailedToCompile message"
| "catch_line (JsThrown v) = FailedToCompile v"

text \<open>
  The condition of the wrapped write,
  \<^verbatim>\<open>filePath && filePath.endsWith('.vue.js') && typeof data === 'string'\<close>.
\<close>

fun is_text :: "payload \<Rightarrow> bool" where
  "is_text (Text t) = True"
| "is_text (Bytes b) = False"

definition placeholder_write :: "'w state \<Rightarrow> write_args \<Rightarrow> bool" where
  "placeholder_write s args =
     (case fdToPath s (w_fd args) of
        None \<Rightarrow> False
      | Some filePath \<Rightarrow>
          filePath \<noteq> [] \<and> endsWith filePath ''.vue.js'' \<and> is_text (w_data args))"

definition writeSync :: "'w node \<Rightarrow> write_args \<Rightarrow> 'w state \<Rightarrow> (exn + int) \<times> 'w state" where
  "writeSync N args s =
     (if placeholder_write s args then
        (let filePath = the (fdToPath s (w_fd args))
         in case resolveVueFilePath N filePath s of
              (vueFilePath, s1) \<Rightarrow>
                if vueFilePath = None \<or> vueFilePath = Some [] then
                  native_write N args (console_error (CouldNotResolve filePath) s1)
                else
                  (case try_block N args filePath (the vueFilePath) s1 of
                     (Inr (Some n), s2) \<Rightarrow> (Inr n, s2)
                   | (Inr None, s2) \<Rightarrow> native_write N args s2
                   | (Inl err, s2) \<Rightarrow> native_write N args (console_error (catch_line err) s2)))
      else native_write N args s)"

section \<open>Notions used to state the claims\<close>

text \<open>
  The paths the type checker hands to the file system are absolute and in
  normal form: a \<open>/\<close> followed by segments joined by \<open>/\<close>, where a segment is
  not empty, holds no \<open>/\<close> and is neither \<open>.\<close> nor \<open>..\<close>.
\<close>

definition clean_seg :: "string \<Rightarrow> bool" where
  "clean_seg seg = (seg \<noteq> [] \<and> CHR ''/'' \<notin> set seg \<and> seg \<noteq> ''.'' \<and> seg \<noteq> ''..'')"

definition abs_path :: "string list \<Rightarrow> string" where
  "abs_path segs = CHR ''/'' # join_with ''/'' segs"

text \<open>The directories the loop of \<^verbatim>\<open>findTsConfig\<close> probes, in order.\<close>

function walk_dirs :: "string \<Rightarrow> string list" where
  "walk_dirs dir = (if dir \<noteq> dirname dir then dir # walk_dirs (dirname dir) else [])"
  by pat_completeness auto
termination
  by (relation "measure walk_measure") (simp_all add: dirname_smaller)

declare walk_dirs.simps [simp del]

definition tsconfig_in :: "string \<Rightarrow> string" where
  "tsconfig_in dir = join [dir, ''tsconfig.json'']"

text \<open>
  The cache is populated only by \<^verbatim>\<open>getTsConfigPaths\<close> and never invalidated. It
  is consistent when every entry is what reading the file yields now, as it is
  when the configuration files do not change during the run.
\<close>

definition cache_ok :: "'w node \<Rightarrow> 'w state \<Rightarrow> bool" where
  "cache_ok N s =
     (\<forall>c r. tsconfigCache s c = Some r \<longrightarrow> read_settings N (world s) c = Inr r)"


definition option_of :: "jsval \<Rightarrow> string \<Rightarrow> jsval" where
  "option_of compilerOptions key =
     (case get_prop compilerOptions key of Inr v \<Rightarrow> v | Inl e \<Rightarrow> JUndefined)"

fun is_JStr :: "jsval \<Rightarrow> bool" where
  "is_JStr (JStr t) = True"
| "is_JStr v = False"

definition dir_option :: "string \<Rightarrow> string \<Rightarrow> jsval \<Rightarrow> string" where
  "dir_option cwd projectRoot v =
     (case v of
        JStr t \<Rightarrow> if t = [] then projectRoot else resolve cwd [projectRoot, t]
      | _ \<Rightarrow> projectRoot)"

text \<open>A real write of the given arguments, whatever its outcome.\<close>

fun is_write_of :: "write_args \<Rightarrow> native_call \<Rightarrow> bool" where
  "is_write_of a (NWrite a' r) = (a' = a)"
| "is_write_of a c = False"






text \<open>
  The removal of comments as the spec words it, for a configuration file that
  is JSON with comments: outside string literals a \<open>//\<close> starts a line comment
  that runs up to the next line terminator, and a \<open>/*\<close> with a later \<open>*/\<close>
  starts a block comment that runs through the first such \<open>*/\<close> (a \<open>/*\<close> that
  is never closed is no comment and stays); inside a string literal, which
  runs from a \<open>"\<close> to the next \<open>"\<close> that no backslash escapes, nothing is a
  comment. The flag tells whether the text starts inside a string literal.
\<close>

function remove_comments_from :: "bool \<Rightarrow> string \<Rightarrow> string" where
  "remove_comments_from True (c # cs) =
     (if c = CHR 0x5C then
        (case cs of
           [] \<Rightarrow> [c]
         | d # ds \<Rightarrow> c # d # remove_comments_from True ds)
      else if c = CHR 0x22 then c # remove_comments_from False cs
      else c # remove_comments_from True cs)"
| "remove_comments_from False (a # b # cs) =
     (if a = CHR 0x22 then a # remove_comments_from True (b # cs)
      else if a = CHR ''/'' \<and> b = CHR ''*'' then
        (case after_close cs of
           Some rest \<Rightarrow> remove_comments_from False rest
         | None \<Rightarrow> a # remove_comments_from False (b # cs))
      else if a = CHR ''/'' \<and> b = CHR ''/'' then
        remove_comments_from False (dropWhile (\<lambda>c. \<not> line_terminator c) cs)
      else a # remove_comments_from False (b # cs))"
| "remove_comments_from False [a] = [a]"
| "remove_comments_from instr [] = []"
  by pat_completeness auto
termination
proof (relation "measure (\<lambda>(instr, cs). length cs)")
  fix a b :: char and cs rest :: string
  assume "after_close cs = Some rest"
  then show "((False, rest), (False, a # b # cs)) \<in> measure (\<lambda>(instr, cs). length cs)"
    using after_close_length [of cs rest] by simp
next
  fix a b :: char and cs :: string
  show "((False, dropWhile (\<lambda>c. \<not> line_terminator c) cs), (False, a # b # cs))
          \<in> measure (\<lambda>(instr, cs). length cs)"
    using length_dropWhile_le [of "\<lambda>c. \<not> line_terminator c" cs] by simp
qed simp_all

definition remove_comments :: "string \<Rightarrow> string" where
  "remove_comments content = remove_comments_from False content"

text \<open>
  A text whose string literals hold neither \<open>//\<close> nor \<open>/*\<close>. The two
  characters are looked for as they stand in the file, whatever backslashes
  precede them.
\<close>

fun starts_marker :: "string \<Rightarrow> bool" where
  "starts_marker (a # b # cs) = (a = CHR ''/'' \<and> (b = CHR ''/'' \<or> b = CHR ''*''))"
| "starts_marker cs = False"

function plain_strings_from :: "bool \<Rightarrow> string \<Rightarrow> bool" where
  "plain_strings_from True (c # cs) =
     (if starts_marker (c # cs) then False
      else if c = CHR 0x5C then
        (case cs of
           [] \<Rightarrow> True
         | d # ds \<Rightarrow> if starts_marker (d # ds) then False else plain_strings_from True ds)
      else if c = CHR 0x22 then plain_strings_from False cs
      else plain_strings_from True cs)"
| "plain_strings_from False (a # b # cs) =
     (if a = CHR 0x22 then plain_strings_from True (b # cs)
      else if a = CHR ''/'' \<and> b = CHR ''*'' then
        (case after_close cs of
           Some rest \<Rightarrow> plain_strings_from False rest
         | None \<Rightarrow> plain_strings_from False (b # cs))
      else if a = CHR ''/'' \<and> b = CHR ''/'' then
        plain_strings_from False (dropWhile (\<lambda>c. \<not> line_terminator c) cs)
      else plain_strings_from False (b # cs))"
| "plain_strings_from False [a] = True"
| "plain_strings_from instr [] = True"
  by pat_completeness auto
termination
proof (relation "measure (\<lambda>(instr, cs). length cs)")
  fix a b :: char and cs rest :: string
  assume "after_close cs = Some rest"
  then show "((False, rest), (False, a # b # cs)) \<in> measure (\<lambda>(instr, cs). length cs)"
    using after_close_length [of cs rest] by simp
next
  fix a b :: char and cs :: string
  show "((False, dropWhile (\<lambda>c. \<not> line_terminator c) cs), (False, a # b # cs))
          \<in> measure (\<lambda>(instr, cs). length cs)"
    using length_dropWhile_le [of "\<lambda>c. \<not> line_terminator c" cs] by simp
qed simp_all

definition plain_strings :: "string \<Rightarrow> bool" where
  "plain_strings content = plain_strings_from False content"

section \<open>A concrete installation\<close>

text \<open>
  A small instance of the surroundings, used to run the model: a disk given by
  a list of files, \<^verbatim>\<open>JSON.parse\<close> given by its value on the texts that occur
  (any other text is a syntax error),
  a compiler with a fixed answer, and real operations that always succeed (the
  open returns descriptor 3, the write returns the length of the payload). The
  operating system state counts the real calls made. The working directory is
  \<^verbatim>\<open>/proj\<close>.
\<close>

definition mk_node ::
  "(string \<times> string) list \<Rightarrow> (string \<times> jsval) list \<Rightarrow> (exn + compile_result) \<Rightarrow> nat node" where
  "mk_node disk json compiled =
     \<lparr>process_cwd = ''/proj'',
      existsSync = (\<lambda>w p. map_of disk p \<noteq> None),
      readFileSync = (\<lambda>w p. case map_of disk p of
                                  None \<Rightarrow> Inl (JsError ''ENOENT'')
                                | Some text \<Rightarrow> Inr text),
      JSON_parse = (\<lambda>t. case map_of json t of
                            None \<Rightarrow> Inl (JsError ''SyntaxError'')
                          | Some v \<Rightarrow> Inr v),
      JSON_stringify = (\<lambda>m. case m of SourceMap t \<Rightarrow> t),
      compileVueSFC = (\<lambda>w code opts. compiled),
      nativeOpenSync = (\<lambda>a w. (Inr 3, Suc w)),
      nativeWriteSync = (\<lambda>a w. (Inr (case w_data a of Text t \<Rightarrow> int (length t)
                                          | Bytes b \<Rightarrow> int (length b)), Suc w)),
      nativeCloseSync = (\<lambda>fd w. (Inr (), Suc w))\<rparr>"

definition start :: "nat state" where
  "start = \<lparr>fdToPath = Map.empty, tsconfigCache = Map.empty, world = 0, calls = [], stderr = []\<rparr>"

definition tsconfig_text :: string where
  \<open>tsconfig_text = ''{ /* build */ "compilerOptions": { "outDir": "dist", "rootDir": "src", "sourceMap": true } } // end''\<close>

definition tsconfig_stripped :: string where
  \<open>tsconfig_stripped = ''{  "compilerOptions": { "outDir": "dist", "rootDir": "src", "sourceMap": true } } ''\<close>

definition tsconfig_value :: jsval where
  "tsconfig_value =
     JObj [(''compilerOptions'',
            JObj [(''outDir'', JStr ''dist''), (''rootDir'', JStr ''src''),
                  (''sourceMap'', JBool True)])]"

definition ok_result :: compile_result where
  "ok_result =
     \<lparr>js_code = ''export default {}'', js_sourceMap = Some (SourceMap ''{}''),
      css = [\<lparr>css_filename = ''Foo.vue.css'', css_code = ''.a{}'', css_sourceMap = None\<rparr>],
      errors = []\<rparr>"

definition demo_disk :: "(string \<times> string) list" where
  "demo_disk = [(''/proj/tsconfig.json'', tsconfig_text),
                (''/proj/src/a/b/Foo.vue'', ''<template/>'')]"

definition demo :: "(exn + compile_result) \<Rightarrow> nat node" where
  "demo compiled = mk_node demo_disk [(tsconfig_stripped, tsconfig_value)] compiled"

text \<open>
  A project in \<^verbatim>\<open>/p\<close> whose configuration names only the output directory
  \<^verbatim>\<open>dist\<close>, and one whose output directory is the very path of a placeholder
  file and whose source root is \<^verbatim>\<open>/\<close>.
\<close>

definition outDir_only_text :: string where
  \<open>outDir_only_text = ''{"compilerOptions":{"outDir":"dist"}}''\<close>

definition outDir_only :: "nat node" where
  "outDir_only =
     mk_node [(''/p/tsconfig.json'', outDir_only_text)]
       [(outDir_only_text, JObj [(''compilerOptions'', JObj [(''outDir'', JStr ''dist'')])])]
       (Inr ok_result)"

definition outDir_is_file_text :: string where
  \<open>outDir_is_file_text = ''{"compilerOptions":{"outDir":"x.vue.js","rootDir":"/"}}''\<close>

definition outDir_is_file :: "nat node" where
  "outDir_is_file =
     mk_node [(''/p/tsconfig.json'', outDir_is_file_text)]
       [(outDir_is_file_text,
         JObj [(''compilerOptions'',
                JObj [(''outDir'', JStr ''x.vue.js''), (''rootDir'', JStr ''/'')])])]
       (Inr ok_result)"

text \<open>A project in \<^verbatim>\<open>/p\<close> whose \<^verbatim>\<open>tsconfig.json\<close> holds the JSON text \<^verbatim>\<open>null\<close>.\<close>

definition null_config :: "nat node" where
  "null_config = mk_node [(''/p/tsconfig.json'', ''null'')] [(''null'', JNull)] (Inr ok_result)"

text \<open>
  A project in \<^verbatim>\<open>/p\<close> whose \<^verbatim>\<open>tsconfig.json\<close> has no comment and names its
  schema by a URL.
\<close>

definition schema_text :: string where
  \<open>schema_text = ''{"$schema":"https://json.schemastore.org/tsconfig","compilerOptions":{"outDir":"dist"}}''\<close>

definition schema_url :: "nat node" where
  "schema_url =
     mk_node [(''/p/tsconfig.json'', schema_text)]
       [(schema_text,
         JObj [(''$schema'', JStr ''https://json.schemastore.org/tsconfig''),
               (''compilerOptions'', JObj [(''outDir'', JStr ''dist'')])])]
       (Inr ok_result)"

text \<open>
  An answer of the compiler with a diagnostic; the state in which the
  placeholder is open as descriptor 3, before and after the configuration was
  cached; a write of four characters to descriptor 3.
\<close>

definition failed_result :: compile_result where
  "failed_result =
     \<lparr>js_code = [], js_sourceMap = None,
      css = [\<lparr>css_filename = ''Foo.vue.css'', css_code = ''.a{}'', css_sourceMap = None\<rparr>],
      errors = [''Element is missing end tag.'']\<rparr>"

definition open_Foo :: "nat state" where
  "open_Foo = start\<lparr>fdToPath := [3 \<mapsto> ''/proj/dist/a/b/Foo.vue.js'']\<rparr>"

definition write_stub :: write_args where
  "write_stub = \<lparr>w_fd = 3, w_data = Text ''stub'', w_rest = []\<rparr>"

definition demo_settings :: settings where
  "demo_settings = \<lparr>outDir = ''/proj/dist'', rootDir = ''/proj/src'', sourceMap = True\<rparr>"

definition open_Foo_cached :: "nat state" where
  "open_Foo_cached = open_Foo\<lparr>tsconfigCache := [''/proj/tsconfig.json'' \<mapsto> demo_settings]\<rparr>"


section \<open>Writes that are not placeholder writes\<close>

lemma native_write_eq:
  "native_write N args s =
     (fst (nativeWriteSync N args (world s)),
      s\<lparr>world := snd (nativeWriteSync N args (world s)),
        calls := calls s @ [NWrite args (fst (nativeWriteSync N args (world s)))]\<rparr>)"
  by (simp add: native_write_def split: prod.splits)

text \<open>
  Claim C1. A write on a descriptor that has no recorded path, or whose recorded
  path does not end with \<^verbatim>\<open>.vue.js\<close>, or whose payload is not a string, is the
  real write: the wrapper makes exactly one call to the real operation, with the
  arguments it was given, returns what that call returned (a thrown exception
  included), and changes nothing else (the operating system state is the one
  the real write leaves, the two maps and the error log are untouched).
\<close>

theorem writeSync_passthrough:
  assumes "fdToPath s (w_fd args) = None
           \<or> (\<exists>p. fdToPath s (w_fd args) = Some p \<and> \<not> endsWith p ''.vue.js'')
           \<or> \<not> is_text (w_data args)"
  shows "writeSync N args s =
           (fst (nativeWriteSync N args (world s)),
            s\<lparr>world := snd (nativeWriteSync N args (world s)),
              calls := calls s @ [NWrite args (fst (nativeWriteSync N args (world s)))]\<rparr>)"
proof -
  from assms have "\<not> placeholder_write s args"
    by (auto simp: placeholder_write_def split: option.splits)
  then have "writeSync N args s = native_write N args s"
    by (simp add: writeSync_def)
  then show ?thesis by (simp only: native_write_eq)
qed

theorem writeSync_passthrough_witness:
  "fdToPath (start\<lparr>fdToPath := [3 \<mapsto> ''/proj/dist/index.js'']\<rparr>) 3 = Some ''/proj/dist/index.js''
   \<and> \<not> endsWith ''/proj/dist/index.js'' ''.vue.js''
   \<and> writeSync (demo (Inr ok_result)) \<lparr>w_fd = 3, w_data = Text ''stub'', w_rest = []\<rparr>
         (start\<lparr>fdToPath := [3 \<mapsto> ''/proj/dist/index.js'']\<rparr>)
       = (Inr 4,
          start\<lparr>fdToPath := [3 \<mapsto> ''/proj/dist/index.js''], world := 1,
                calls := [NWrite \<lparr>w_fd = 3, w_data = Text ''stub'', w_rest = []\<rparr> (Inr 4)]\<rparr>)"
proof -
  let ?s = "start\<lparr>fdToPath := [3 \<mapsto> ''/proj/dist/index.js'']\<rparr>"
  let ?a = "\<lparr>w_fd = 3, w_data = Text ''stub'', w_rest = []\<rparr>"
  have p: "fdToPath ?s 3 = Some ''/proj/dist/index.js''" by simp
  have e: "\<not> endsWith ''/proj/dist/index.js'' ''.vue.js''"
    by (simp add: endsWith_def suffix_to_prefix)
  have h: "fdToPath ?s (w_fd ?a) = None
           \<or> (\<exists>p. fdToPath ?s (w_fd ?a) = Some p \<and> \<not> endsWith p ''.vue.js'')
           \<or> \<not> is_text (w_data ?a)"
    using p e by simp
  show ?thesis
    using writeSync_passthrough [OF h, of "demo (Inr ok_result)"] p e
    by (simp add: demo_def mk_node_def start_def)
qed

section \<open>Facts about paths in normal form\<close>

text \<open>
  Splitting at \<open>/\<close> undoes joining with \<open>/\<close>, so on paths in normal form
  \<^verbatim>\<open>dirname\<close>, \<^verbatim>\<open>join\<close>, \<^verbatim>\<open>resolve\<close> and \<^verbatim>\<open>relative\<close> act on the list of
  segments.
\<close>

lemma split_on_not_Nil: "split_on c xs \<noteq> []"
  by (induction xs) (auto split: list.splits)

lemma split_on_no_sep: "c \<notin> set xs \<Longrightarrow> split_on c xs = [xs]"
  by (induction xs) auto

lemma split_on_append: "split_on c (xs @ c # ys) = split_on c xs @ split_on c ys"
proof (induction xs)
  case Nil
  show ?case by simp
next
  case (Cons x xs)
  show ?case
  proof (cases "x = c")
    case True
    with Cons show ?thesis by simp
  next
    case False
    obtain s ss where s: "split_on c xs = s # ss"
      using split_on_not_Nil [of c xs] by (cases "split_on c xs") auto
    with Cons False show ?thesis by simp
  qed
qed

lemma path_segments_append:
  "path_segments (xs @ CHR ''/'' # ys) = path_segments xs @ path_segments ys"
  by (simp add: path_segments_def split_on_append)

lemma path_segments_Nil: "path_segments [] = []"
  by (simp add: path_segments_def)

lemma path_segments_seg: "clean_seg seg \<Longrightarrow> path_segments seg = [seg]"
  by (simp add: path_segments_def clean_seg_def split_on_no_sep)

lemma join_with_Cons:
  "join_with sep (x # xs) = (if xs = [] then x else x @ sep @ join_with sep xs)"
  by (cases xs) simp_all

lemma path_segments_join:
  "list_all clean_seg segs \<Longrightarrow> path_segments (join_with ''/'' segs) = segs"
proof (induction segs)
  case Nil
  show ?case by (simp add: path_segments_Nil)
next
  case (Cons x xs)
  show ?case
  proof (cases "xs = []")
    case True
    with Cons show ?thesis by (simp add: path_segments_seg)
  next
    case False
    have "path_segments (x @ CHR ''/'' # join_with ''/'' xs)
            = path_segments x @ path_segments (join_with ''/'' xs)"
      by (rule path_segments_append)
    with Cons False show ?thesis by (simp add: join_with_Cons path_segments_seg)
  qed
qed

lemma path_segments_abs:
  "list_all clean_seg segs \<Longrightarrow> path_segments (abs_path segs) = segs"
  using path_segments_append [of "[]" "join_with ''/'' segs"]
  by (simp add: abs_path_def path_segments_join path_segments_Nil)

lemma norm_segs_filter:
  "norm_segs a segs res = norm_segs a (filter (\<lambda>s. s \<noteq> []) segs) res"
  by (induction segs arbitrary: res) auto

lemma normalizeString_segments:
  "normalizeString p a = join_with ''/'' (norm_segs a (path_segments p) [])"
  unfolding normalizeString_def path_segments_def by (subst norm_segs_filter) (rule refl)

lemma norm_segs_clean:
  "list_all clean_seg segs \<Longrightarrow> norm_segs a segs res = res @ segs"
  by (induction segs arbitrary: res) (simp_all add: clean_seg_def)

lemma join_with_append:
  "xs \<noteq> [] \<Longrightarrow> ys \<noteq> [] \<Longrightarrow>
     join_with sep (xs @ ys) = join_with sep xs @ sep @ join_with sep ys"
  by (induction xs) (simp_all add: join_with_Cons)

lemma join_with_not_Nil:
  "segs \<noteq> [] \<Longrightarrow> list_all clean_seg segs \<Longrightarrow> join_with ''/'' segs \<noteq> []"
  by (cases segs) (auto simp: clean_seg_def join_with_Cons)

lemma join_with_last:
  "segs \<noteq> [] \<Longrightarrow> list_all clean_seg segs \<Longrightarrow> last (join_with ''/'' segs) \<noteq> CHR ''/''"
proof (induction segs)
  case Nil
  then show ?case by simp
next
  case (Cons x xs)
  show ?case
  proof (cases "xs = []")
    case True
    from Cons.prems have "x \<noteq> []" "CHR ''/'' \<notin> set x" by (simp_all add: clean_seg_def)
    then have "last x \<noteq> CHR ''/''" by (metis last_in_set)
    with True show ?thesis by simp
  next
    case False
    with Cons have "join_with ''/'' xs \<noteq> []" "last (join_with ''/'' xs) \<noteq> CHR ''/''"
      using join_with_not_Nil [of xs] by simp_all
    with False show ?thesis by (simp add: join_with_Cons)
  qed
qed

lemma abs_path_Nil: "abs_path [] = ''/''"
  by (simp add: abs_path_def)

lemma abs_path_snoc:
  "segs \<noteq> [] \<Longrightarrow> abs_path (segs @ [f]) = abs_path segs @ CHR ''/'' # f"
  by (simp add: abs_path_def join_with_append)

lemma abs_path_append:
  "segs \<noteq> [] \<Longrightarrow> rel \<noteq> [] \<Longrightarrow>
     abs_path (segs @ rel) = abs_path segs @ CHR ''/'' # join_with ''/'' rel"
  by (simp add: abs_path_def join_with_append)

lemma dropWhile_all: "\<forall>x \<in> set xs. P x \<Longrightarrow> dropWhile P (xs @ ys) = dropWhile P ys"
  by (induction xs) simp_all

lemma scan_last_segment:
  assumes "f \<noteq> []" and "\<forall>x \<in> set f. P x \<and> \<not> Q x"
  shows "dropWhile P (dropWhile Q (rev f @ ys)) = dropWhile P ys"
proof -
  from assms have "\<not> Q (hd (rev f))"
    by (metis hd_rev last_in_set)
  with assms(1) have "dropWhile Q (rev f @ ys) = rev f @ ys"
    by (cases "rev f") simp_all
  moreover from assms(2) have "dropWhile P (rev f @ ys) = dropWhile P ys"
    by (intro dropWhile_all) simp
  ultimately show ?thesis by simp
qed

lemma dirname_abs:
  assumes "list_all clean_seg segs" and "clean_seg f"
  shows "dirname (abs_path (segs @ [f])) = abs_path segs"
proof -
  let ?cs = "join_with ''/'' (segs @ [f])"
  define r where
    "r = dropWhile (\<lambda>c. c \<noteq> CHR ''/'') (dropWhile (\<lambda>c. c = CHR ''/'') (rev ?cs))"
  have d: "dirname (abs_path (segs @ [f])) =
             (if r = [] then (if CHR ''/'' = CHR ''/'' then ''/'' else ''.'')
              else if CHR ''/'' = CHR ''/'' \<and> length r = 1 then ''//''
              else take (length r) (CHR ''/'' # ?cs))"
    unfolding abs_path_def dirname_Cons r_def Let_def ..
  from assms(2) have f: "f \<noteq> []" "\<forall>x \<in> set f. x \<noteq> CHR ''/'' \<and> \<not> x = CHR ''/''"
    by (auto simp: clean_seg_def)
  show ?thesis
  proof (cases "segs = []")
    case True
    have "r = dropWhile (\<lambda>c. c \<noteq> CHR ''/'') []"
      unfolding r_def using scan_last_segment [OF f, of "[]"] True by simp
    then have "r = []" by simp
    with d True show ?thesis by (simp add: abs_path_def)
  next
    case False
    let ?J = "join_with ''/'' segs"
    from False assms(1) have J: "?J \<noteq> []" by (rule join_with_not_Nil)
    have cs: "?cs = ?J @ CHR ''/'' # f"
      using False by (simp add: join_with_append)
    have "r = dropWhile (\<lambda>c. c \<noteq> CHR ''/'') (CHR ''/'' # rev ?J)"
      unfolding r_def cs using scan_last_segment [OF f, of "CHR ''/'' # rev ?J"] by simp
    then have r: "r = CHR ''/'' # rev ?J" by simp
    with J have "length r \<noteq> 1" "r \<noteq> []" by simp_all
    with d have "dirname (abs_path (segs @ [f])) = take (length r) (CHR ''/'' # ?cs)"
      by simp
    also have "\<dots> = CHR ''/'' # ?J" unfolding r cs by simp
    finally show ?thesis by (simp add: abs_path_def)
  qed
qed

lemma normalize_abs_join:
  assumes "list_all clean_seg rd" and "list_all clean_seg rel" and "rel \<noteq> []"
  shows "normalize (abs_path rd @ CHR ''/'' # join_with ''/'' rel) = abs_path (rd @ rel)"
proof -
  let ?R = "join_with ''/'' rel"
  let ?p = "abs_path rd @ CHR ''/'' # ?R"
  from assms have R: "?R \<noteq> []" "last ?R \<noteq> CHR ''/''"
    by (simp_all add: join_with_not_Nil join_with_last)
  have segs: "path_segments ?p = rd @ rel"
    using assms by (simp add: path_segments_append path_segments_abs path_segments_join)
  have clean: "list_all clean_seg (rd @ rel)" using assms by simp
  have ns: "normalizeString ?p False = join_with ''/'' (rd @ rel)"
    by (simp add: normalizeString_segments segs norm_segs_clean [OF clean])
  have ne: "join_with ''/'' (rd @ rel) \<noteq> []"
    using clean assms(3) by (intro join_with_not_Nil) simp_all
  have hd: "hd ?p = CHR ''/''" and lst: "last ?p \<noteq> CHR ''/''" and pne: "?p \<noteq> []"
    using R by (simp_all add: abs_path_def)
  show ?thesis
    unfolding normalize_def Let_def using hd lst pne ns ne
    by (simp add: abs_path_def)
qed

lemma join_abs_rel:
  assumes "list_all clean_seg rd" and "list_all clean_seg rel" and "rel \<noteq> []"
  shows "join [abs_path rd, join_with ''/'' rel] = abs_path (rd @ rel)"
proof -
  from assms have R: "join_with ''/'' rel \<noteq> []" by (simp add: join_with_not_Nil)
  have A: "abs_path rd \<noteq> []" by (simp add: abs_path_def)
  have "join [abs_path rd, join_with ''/'' rel]
          = normalize (abs_path rd @ CHR ''/'' # join_with ''/'' rel)"
    using R A by (simp add: join_def)
  then show ?thesis using assms by (simp add: normalize_abs_join)
qed

lemma join_tsconfig:
  assumes "list_all clean_seg segs" and "segs \<noteq> []"
  shows "join [abs_path segs, ''tsconfig.json''] = abs_path segs @ ''/tsconfig.json''"
proof -
  have c: "list_all clean_seg [''tsconfig.json'']" by (simp add: clean_seg_def)
  have "join [abs_path segs, join_with ''/'' [''tsconfig.json'']]
          = abs_path (segs @ [''tsconfig.json''])"
    using assms(1) c by (intro join_abs_rel) simp_all
  then show ?thesis using assms(2) by (simp add: abs_path_snoc)
qed

lemma resolve_abs:
  assumes "list_all clean_seg segs"
  shows "resolve cwd [abs_path segs] = abs_path segs"
proof -
  have rp: "resolve_prepend (rev [abs_path segs] @ [cwd]) [] = (abs_path segs @ ''/'', True)"
    by (simp add: abs_path_def)
  have "path_segments (abs_path segs @ ''/'') = segs"
    using path_segments_append [of "abs_path segs" "[]"] assms
    by (simp add: path_segments_abs path_segments_Nil)
  then have "normalizeString (abs_path segs @ ''/'') False = join_with ''/'' segs"
    using assms by (simp add: normalizeString_segments norm_segs_clean)
  then show ?thesis
    unfolding resolve_def rp by (simp add: abs_path_def)
qed

lemma drop_common_prefix: "drop_common xs (xs @ ys) = ([], ys)"
proof (induction xs)
  case Nil
  show ?case by (cases ys) simp_all
next
  case (Cons x xs)
  then show ?case by simp
qed

lemma relative_under:
  assumes "list_all clean_seg od" and "list_all clean_seg rel" and "rel \<noteq> []"
  shows "relative cwd (abs_path od) (abs_path (od @ rel)) = join_with ''/'' rel"
proof -
  have clean: "list_all clean_seg (od @ rel)" using assms by simp
  have neq: "abs_path od \<noteq> abs_path (od @ rel)"
  proof
    assume "abs_path od = abs_path (od @ rel)"
    then have "path_segments (abs_path od) = path_segments (abs_path (od @ rel))" by simp
    with assms clean show False by (simp add: path_segments_abs)
  qed
  show ?thesis
    unfolding relative_def Let_def
    using neq assms(1) clean
    by (simp add: resolve_abs path_segments_abs drop_common_prefix)
qed

lemma startsWith_under: "startsWith (abs_path (od @ rel)) (abs_path od)"
proof (cases "od = [] \<or> rel = []")
  case True
  then show ?thesis by (auto simp: startsWith_def abs_path_def)
next
  case False
  then show ?thesis by (simp add: startsWith_def abs_path_append)
qed

section \<open>The walk of the config resolver\<close>

text \<open>\<^verbatim>\<open>findTsConfig\<close> returns the first hit among the probed directories.\<close>

lemma walk_up_find:
  "walk_up ex dir =
     map_option tsconfig_in (find (\<lambda>d. ex (tsconfig_in d)) (walk_dirs dir))"
proof (induction ex dir rule: walk_up.induct)
  case (1 ex dir)
  show ?case
  proof (cases "dir \<noteq> dirname dir")
    case False
    then show ?thesis by (simp add: walk_up.simps [of ex dir] walk_dirs.simps [of dir])
  next
    case True
    show ?thesis
    proof (cases "ex (join [dir, ''tsconfig.json''])")
      case ex: True
      with True show ?thesis
        by (simp add: walk_up.simps [of ex dir] walk_dirs.simps [of dir] tsconfig_in_def)
    next
      case nex: False
      with True "1.IH" [OF True refl nex] show ?thesis
        by (simp add: walk_up.simps [of ex dir] walk_dirs.simps [of dir] tsconfig_in_def)
    qed
  qed
qed

lemma walk_dirs_no_fixed_point: "d \<in> set (walk_dirs dir) \<Longrightarrow> d \<noteq> dirname d"
proof (induction dir rule: walk_dirs.induct)
  case (1 dir)
  show ?case
  proof (cases "dir \<noteq> dirname dir")
    case True
    with 1 show ?thesis by (auto simp: walk_dirs.simps [of dir])
  next
    case False
    with "1.prems" show ?thesis by (simp add: walk_dirs.simps [of dir])
  qed
qed

lemma walk_dirs_abs:
  "list_all clean_seg segs \<Longrightarrow>
     walk_dirs (abs_path segs) = map abs_path (rev (tl (prefixes segs)))"
proof (induction segs rule: rev_induct)
  case Nil
  show ?case by (simp add: abs_path_Nil walk_dirs.simps [of "''/''"] dirname_root)
next
  case (snoc x xs)
  then have c: "list_all clean_seg xs" "clean_seg x" by simp_all
  have d: "dirname (abs_path (xs @ [x])) = abs_path xs" using c by (rule dirname_abs)
  have "path_segments (abs_path (xs @ [x])) \<noteq> path_segments (abs_path xs)"
    using c by (simp add: path_segments_abs)
  then have neq: "abs_path (xs @ [x]) \<noteq> abs_path xs" by auto
  have "walk_dirs (abs_path (xs @ [x])) = abs_path (xs @ [x]) # walk_dirs (abs_path xs)"
    using neq d by (simp add: walk_dirs.simps [of "abs_path (xs @ [x])"])
  moreover have "tl (prefixes (xs @ [x])) = tl (prefixes xs) @ [xs @ [x]]"
    by (cases "prefixes xs") simp_all
  ultimately show ?case using snoc.IH [OF c(1)] by simp
qed

lemma tsconfig_in_abs:
  assumes "list_all clean_seg segs" and "d \<in> set (rev (tl (prefixes segs)))"
  shows "tsconfig_in (abs_path d) = abs_path d @ ''/tsconfig.json''"
proof -
  from assms(2) have "d \<in> set (prefixes segs)" "d \<noteq> []"
    by (cases "prefixes segs"; cases segs; auto)+
  then have "prefix d segs" by simp
  then obtain rest where "segs = d @ rest" by (auto simp: prefix_def)
  with assms(1) have "list_all clean_seg d" by simp
  then show ?thesis
    unfolding tsconfig_in_def using \<open>d \<noteq> []\<close> by (rule join_tsconfig)
qed

text \<open>
  Claim C6, as amended. For every input path the resolver probes the path's
  containing directory and then the \<^verbatim>\<open>dirname\<close> of each probed directory in
  turn; it stops before the directory that is its own \<^verbatim>\<open>dirname\<close>, which is
  not probed: the file system root \<open>/\<close> is never probed. It returns the
  \<^verbatim>\<open>tsconfig.json\<close> of the first probed directory that has one, and reports
  NotFound exactly when no probed directory has one. For an absolute path in
  normal form the probed directories are exactly the ancestor directories other
  than the root, the deepest first, and the file probed in each is the
  directory's name followed by \<^verbatim>\<open>/tsconfig.json\<close>.
\<close>

theorem findTsConfig_walk:
  "findTsConfig N w p =
     map_option tsconfig_in
       (find (\<lambda>d. existsSync N w (tsconfig_in d)) (walk_dirs (dirname p)))
   \<and> ((findTsConfig N w p = None) =
        (\<forall>d \<in> set (walk_dirs (dirname p)). \<not> existsSync N w (tsconfig_in d)))
   \<and> ''/'' \<notin> set (walk_dirs (dirname p))
   \<and> (list_all clean_seg segs \<longrightarrow> clean_seg f \<longrightarrow>
        walk_dirs (dirname (abs_path (segs @ [f]))) = map abs_path (rev (tl (prefixes segs)))
        \<and> (\<forall>d \<in> set (rev (tl (prefixes segs))).
              tsconfig_in (abs_path d) = abs_path d @ ''/tsconfig.json''))"
proof (intro conjI impI ballI)
  show 1: "findTsConfig N w p =
     map_option tsconfig_in
       (find (\<lambda>d. existsSync N w (tsconfig_in d)) (walk_dirs (dirname p)))"
    by (simp add: findTsConfig_def walk_up_find)
  show "(findTsConfig N w p = None) =
     (\<forall>d \<in> set (walk_dirs (dirname p)). \<not> existsSync N w (tsconfig_in d))"
    unfolding 1 by (auto simp: find_None_iff)
  show "''/'' \<notin> set (walk_dirs (dirname p))"
    using walk_dirs_no_fixed_point [of "''/''" "dirname p"] dirname_root by auto
next
  assume "list_all clean_seg segs" "clean_seg f"
  then show "walk_dirs (dirname (abs_path (segs @ [f]))) = map abs_path (rev (tl (prefixes segs)))"
    by (simp add: dirname_abs walk_dirs_abs)
next
  fix d
  assume "list_all clean_seg segs" "d \<in> set (rev (tl (prefixes segs)))"
  then show "tsconfig_in (abs_path d) = abs_path d @ ''/tsconfig.json''"
    by (rule tsconfig_in_abs)
qed

theorem findTsConfig_walk_witness:
  "list_all clean_seg [''proj'', ''dist'', ''a'', ''b''] \<and> clean_seg ''Foo.vue.js''
   \<and> walk_dirs (dirname ''/proj/dist/a/b/Foo.vue.js'')
       = [''/proj/dist/a/b'', ''/proj/dist/a'', ''/proj/dist'', ''/proj'']
   \<and> findTsConfig (demo (Inr ok_result)) 0 ''/proj/dist/a/b/Foo.vue.js''
       = Some ''/proj/tsconfig.json''"
proof -
  let ?segs = "[''proj'', ''dist'', ''a'', ''b'']"
  let ?p = "''/proj/dist/a/b/Foo.vue.js''"
  have c: "list_all clean_seg ?segs" "clean_seg ''Foo.vue.js''"
    by (simp_all add: clean_seg_def)
  have p: "abs_path (?segs @ [''Foo.vue.js'']) = ?p"
    by (simp add: abs_path_def)
  note T = findTsConfig_walk [of "demo (Inr ok_result)" 0 ?p ?segs "''Foo.vue.js''"]
  from T c have w: "walk_dirs (dirname ?p) = map abs_path (rev (tl (prefixes ?segs)))"
    unfolding p by blast
  then have w': "walk_dirs (dirname ?p)
       = [''/proj/dist/a/b'', ''/proj/dist/a'', ''/proj/dist'', ''/proj'']"
    by (simp add: abs_path_def)
  from T c have t: "\<forall>d \<in> set (rev (tl (prefixes ?segs))).
      tsconfig_in (abs_path d) = abs_path d @ ''/tsconfig.json''"
    by blast
  have t': "tsconfig_in ''/proj/dist/a/b'' = ''/proj/dist/a/b/tsconfig.json''"
       "tsconfig_in ''/proj/dist/a'' = ''/proj/dist/a/tsconfig.json''"
       "tsconfig_in ''/proj/dist'' = ''/proj/dist/tsconfig.json''"
       "tsconfig_in ''/proj'' = ''/proj/tsconfig.json''"
    using t by (simp_all add: abs_path_def)
  from T have "findTsConfig (demo (Inr ok_result)) 0 ?p =
     map_option tsconfig_in
       (find (\<lambda>d. existsSync (demo (Inr ok_result)) 0 (tsconfig_in d)) (walk_dirs (dirname ?p)))"
    by blast
  then have "findTsConfig (demo (Inr ok_result)) 0 ?p = Some ''/proj/tsconfig.json''"
    unfolding w' by (simp add: t' demo_def mk_node_def demo_disk_def)
  with c w' show ?thesis by simp
qed

text \<open>
  The claim as stated counts the file system root among the directories
  searched. With a \<^verbatim>\<open>tsconfig.json\<close> in the root only, the root is an ancestor
  of \<^verbatim>\<open>/proj/Foo.vue.js\<close> that has the file, and the resolver reports NotFound.
\<close>

theorem findTsConfig_root_counterexample:
  "dirname (dirname ''/proj/Foo.vue.js'') = ''/''
   \<and> existsSync (mk_node [(''/tsconfig.json'', tsconfig_text)] [] (Inr ok_result)) 0
         (join [''/'', ''tsconfig.json''])
   \<and> findTsConfig (mk_node [(''/tsconfig.json'', tsconfig_text)] [] (Inr ok_result)) 0
         ''/proj/Foo.vue.js'' = None"
  by code_simp

section \<open>The path mapper\<close>

lemma slice_0_m3_append: "length ext = 3 \<Longrightarrow> slice_0_m3 (xs @ ext) = xs"
  by (simp add: slice_0_m3_def)

lemma abs_path_last: "abs_path (segs @ [stem @ ext]) = abs_path (segs @ [stem]) @ ext"
  by (cases "segs = []") (simp_all add: abs_path_def join_with_append)

text \<open>
  Claim C3. Let the configuration resolve to \<open>outDir\<close> and \<open>rootDir\<close>. For
  every output path that starts with \<open>outDir\<close> (the test the code makes), the
  mapped path is \<^verbatim>\<open>path.join(rootDir, path.relative(outDir, path))\<close> without its
  last three characters. For directories and an output path in normal form,
  with the output path \<open>outDir/dirs/stem.ext\<close> lying under \<open>outDir\<close> and \<open>ext\<close>
  of three characters: the path relative to \<open>outDir\<close> is \<open>dirs/stem.ext\<close>,
  re-rooted it is \<open>rootDir/dirs/stem.ext\<close>, and the mapped path is exactly
  \<open>rootDir/dirs/stem\<close>. The cache and the error log are left as the config
  resolver leaves them.
\<close>

theorem resolveVueFilePath_reroot:
  assumes "getTsConfigPaths N p s = (Some paths, s')"
  shows "(startsWith p (outDir paths) \<longrightarrow>
            resolveVueFilePath N p s =
              (Some (slice_0_m3 (join [rootDir paths,
                                       relative (process_cwd N) (outDir paths) p])), s'))
         \<and> (list_all clean_seg od \<and> list_all clean_seg rd \<and> list_all clean_seg dirs
              \<and> clean_seg (stem @ ext) \<and> length ext = 3
              \<and> outDir paths = abs_path od \<and> rootDir paths = abs_path rd
              \<and> p = abs_path (od @ dirs @ [stem @ ext]) \<longrightarrow>
            relative (process_cwd N) (outDir paths) p = join_with ''/'' (dirs @ [stem @ ext])
            \<and> join [rootDir paths, join_with ''/'' (dirs @ [stem @ ext])]
                = abs_path (rd @ dirs @ [stem @ ext])
            \<and> resolveVueFilePath N p s = (Some (abs_path (rd @ dirs @ [stem])), s'))"
proof (intro conjI impI)
  assume "startsWith p (outDir paths)"
  with assms show "resolveVueFilePath N p s =
      (Some (slice_0_m3 (join [rootDir paths, relative (process_cwd N) (outDir paths) p])), s')"
    by (simp add: resolveVueFilePath_def Let_def)
next
  assume h: "list_all clean_seg od \<and> list_all clean_seg rd \<and> list_all clean_seg dirs
              \<and> clean_seg (stem @ ext) \<and> length ext = 3
              \<and> outDir paths = abs_path od \<and> rootDir paths = abs_path rd
              \<and> p = abs_path (od @ dirs @ [stem @ ext])"
  let ?rel = "dirs @ [stem @ ext]"
  from h have rel: "list_all clean_seg ?rel" "?rel \<noteq> []" by simp_all
  from h have p: "p = abs_path (od @ ?rel)" by simp
  show r: "relative (process_cwd N) (outDir paths) p = join_with ''/'' ?rel"
    using h rel unfolding p by (simp add: relative_under)
  show j: "join [rootDir paths, join_with ''/'' ?rel] = abs_path (rd @ ?rel)"
    using h rel by (simp add: join_abs_rel)
  have sw: "startsWith p (outDir paths)"
    using h unfolding p by (simp add: startsWith_under)
  have "abs_path (rd @ ?rel) = abs_path ((rd @ dirs) @ [stem]) @ ext"
    using abs_path_last [of "rd @ dirs" stem ext] by simp
  with h have "slice_0_m3 (abs_path (rd @ ?rel)) = abs_path (rd @ dirs @ [stem])"
    by (simp add: slice_0_m3_append)
  with assms sw r j show "resolveVueFilePath N p s = (Some (abs_path (rd @ dirs @ [stem])), s')"
    by (simp add: resolveVueFilePath_def Let_def)
qed

lemma demo_strip_comments: "strip_comments tsconfig_text = tsconfig_stripped"
  by code_simp

lemma demo_findTsConfig:
  "findTsConfig (demo c) 0 ''/proj/dist/a/b/Foo.vue.js'' = Some ''/proj/tsconfig.json''"
  by code_simp

lemma demo_read_settings:
  "read_settings (demo c) 0 ''/proj/tsconfig.json''
     = Inr \<lparr>outDir = ''/proj/dist'', rootDir = ''/proj/src'', sourceMap = True\<rparr>"
  by code_simp

lemma demo_getTsConfigPaths:
  "getTsConfigPaths (demo c) ''/proj/dist/a/b/Foo.vue.js'' start
     = (Some \<lparr>outDir = ''/proj/dist'', rootDir = ''/proj/src'', sourceMap = True\<rparr>,
        start\<lparr>tsconfigCache :=
          [''/proj/tsconfig.json'' \<mapsto>
             \<lparr>outDir = ''/proj/dist'', rootDir = ''/proj/src'', sourceMap = True\<rparr>]\<rparr>)"
  by (simp add: getTsConfigPaths_def start_def demo_findTsConfig demo_read_settings)

theorem resolveVueFilePath_reroot_witness:
  "getTsConfigPaths (demo (Inr ok_result)) ''/proj/dist/a/b/Foo.vue.js'' start
     = (Some \<lparr>outDir = ''/proj/dist'', rootDir = ''/proj/src'', sourceMap = True\<rparr>,
        start\<lparr>tsconfigCache :=
          [''/proj/tsconfig.json'' \<mapsto>
             \<lparr>outDir = ''/proj/dist'', rootDir = ''/proj/src'', sourceMap = True\<rparr>]\<rparr>)
   \<and> startsWith ''/proj/dist/a/b/Foo.vue.js'' ''/proj/dist''
   \<and> relative ''/proj'' ''/proj/dist'' ''/proj/dist/a/b/Foo.vue.js'' = ''a/b/Foo.vue.js''
   \<and> join [''/proj/src'', ''a/b/Foo.vue.js''] = ''/proj/src/a/b/Foo.vue.js''
   \<and> fst (resolveVueFilePath (demo (Inr ok_result)) ''/proj/dist/a/b/Foo.vue.js'' start)
       = Some ''/proj/src/a/b/Foo.vue''
   \<and> slice_0_m3 (join [''src'', relative ''/proj'' ''dist'' ''dist/a/b/Foo.vue.js''])
       = ''src/a/b/Foo.vue''"
proof -
  let ?N = "demo (Inr ok_result)"
  let ?cfg = "\<lparr>outDir = ''/proj/dist'', rootDir = ''/proj/src'', sourceMap = True\<rparr>"
  have lit: "slice_0_m3 (join [''src'', relative ''/proj'' ''dist'' ''dist/a/b/Foo.vue.js''])
       = ''src/a/b/Foo.vue''"
    by code_simp
  let ?s' = "start\<lparr>tsconfigCache := [''/proj/tsconfig.json'' \<mapsto> ?cfg]\<rparr>"
  have g: "getTsConfigPaths ?N ''/proj/dist/a/b/Foo.vue.js'' start = (Some ?cfg, ?s')"
    by (rule demo_getTsConfigPaths)
  have h: "list_all clean_seg [''proj'', ''dist''] \<and> list_all clean_seg [''proj'', ''src'']
            \<and> list_all clean_seg [''a'', ''b''] \<and> clean_seg (''Foo.vue'' @ ''.js'')
            \<and> length ''.js'' = 3
            \<and> outDir ?cfg = abs_path [''proj'', ''dist'']
            \<and> rootDir ?cfg = abs_path [''proj'', ''src'']
            \<and> ''/proj/dist/a/b/Foo.vue.js''
                = abs_path ([''proj'', ''dist''] @ [''a'', ''b''] @ [''Foo.vue'' @ ''.js''])"
    by (simp add: clean_seg_def abs_path_def)
  have sw: "startsWith ''/proj/dist/a/b/Foo.vue.js'' ''/proj/dist''"
    by (simp add: startsWith_def)
  have cwd: "process_cwd ?N = ''/proj''" by (simp add: demo_def mk_node_def)
  from resolveVueFilePath_reroot [OF g, of "[''proj'', ''dist'']" "[''proj'', ''src'']"
      "[''a'', ''b'']" "''Foo.vue''" "''.js''"] h
  have "relative (process_cwd ?N) (outDir ?cfg) ''/proj/dist/a/b/Foo.vue.js''
          = join_with ''/'' ([''a'', ''b''] @ [''Foo.vue'' @ ''.js''])
        \<and> join [rootDir ?cfg, join_with ''/'' ([''a'', ''b''] @ [''Foo.vue'' @ ''.js''])]
            = abs_path ([''proj'', ''src''] @ [''a'', ''b''] @ [''Foo.vue'' @ ''.js''])
        \<and> resolveVueFilePath ?N ''/proj/dist/a/b/Foo.vue.js'' start
            = (Some (abs_path ([''proj'', ''src''] @ [''a'', ''b''] @ [''Foo.vue''])), ?s')"
    by blast
  then show ?thesis using g sw lit unfolding cwd by (simp add: abs_path_def)
qed

text \<open>
  Claim C5. The claim is about paths that do not live under the output
  directory; the code tests that the path, as a string, starts with \<open>outDir\<close>
  (its comments: ``Check if the file is in the outDir'', ``Not in output
  directory, use fallback''). The two differ for a sibling directory whose name
  continues the name of the output directory. With \<^verbatim>\<open>/p/tsconfig.json\<close> naming
  the output directory \<^verbatim>\<open>dist\<close>, the file \<^verbatim>\<open>/p/dist2/Foo.vue.js\<close> is not under
  \<^verbatim>\<open>/p/dist\<close>, yet it passes the test and is re-rooted: the mapped path is
  \<^verbatim>\<open>/dist2/Foo.vue\<close>, not the fallback \<^verbatim>\<open>/p/dist2/Foo.vue\<close>.
\<close>

theorem resolveVueFilePath_sibling_directory:
  "fst (getTsConfigPaths outDir_only ''/p/dist2/Foo.vue.js'' start)
     = Some \<lparr>outDir = ''/p/dist'', rootDir = ''/p'', sourceMap = False\<rparr>
   \<and> path_segments ''/p/dist'' = [''p'', ''dist'']
   \<and> path_segments ''/p/dist2/Foo.vue.js'' = [''p'', ''dist2'', ''Foo.vue.js'']
   \<and> startsWith ''/p/dist2/Foo.vue.js'' ''/p/dist''
   \<and> relative ''/proj'' ''/p/dist'' ''/p/dist2/Foo.vue.js'' = ''../dist2/Foo.vue.js''
   \<and> fst (resolveVueFilePath outDir_only ''/p/dist2/Foo.vue.js'' start) = Some ''/dist2/Foo.vue''
   \<and> slice_0_m3 ''/p/dist2/Foo.vue.js'' = ''/p/dist2/Foo.vue''"
  by code_simp

section \<open>The unresolved-mapping branch of the wrapped write\<close>

lemma resolveVueFilePath_cases:
  "resolveVueFilePath N p s =
     (case fst (getTsConfigPaths N p s) of
        None \<Rightarrow> Some (slice_0_m3 p)
      | Some paths \<Rightarrow>
          if startsWith p (outDir paths)
          then Some (slice_0_m3 (join [rootDir paths, relative (process_cwd N) (outDir paths) p]))
          else Some (slice_0_m3 p),
      snd (getTsConfigPaths N p s))"
  by (cases "getTsConfigPaths N p s")
     (simp add: resolveVueFilePath_def Let_def split: option.splits)

lemma slice_0_m3_placeholder: "endsWith p ''.vue.js'' \<Longrightarrow> slice_0_m3 p \<noteq> []"
  by (auto simp: endsWith_def suffix_def slice_0_m3_def)

text \<open>
  Claim C10, as amended. For every input \<^verbatim>\<open>resolveVueFilePath\<close> returns a string,
  never \<^verbatim>\<open>null\<close>. On a path that ends with \<^verbatim>\<open>.vue.js\<close> the two fallback branches
  (no configuration, path not starting with \<open>outDir\<close>) return a string that is
  not empty. The guard \<^verbatim>\<open>!vueFilePath\<close> of the wrapped write also holds for the
  empty string, so for a placeholder write the error branch is taken exactly
  when the mapped path is empty, which only the re-rooting branch can produce;
  in every other case the write goes on to the \<^verbatim>\<open>try\<close> block, which starts
  with the source-existence check.
\<close>

theorem resolveVueFilePath_never_null:
  "(\<exists>v. fst (resolveVueFilePath N p s) = Some v)
   \<and> (endsWith p ''.vue.js'' \<longrightarrow>
        (fst (getTsConfigPaths N p s) = None
         \<or> (\<exists>paths. fst (getTsConfigPaths N p s) = Some paths \<and> \<not> startsWith p (outDir paths)))
        \<longrightarrow> fst (resolveVueFilePath N p s) = Some (slice_0_m3 p) \<and> slice_0_m3 p \<noteq> [])
   \<and> (placeholder_write s args \<longrightarrow> fdToPath s (w_fd args) = Some p \<longrightarrow>
        writeSync N args s =
          (let s1 = snd (resolveVueFilePath N p s)
           in if fst (resolveVueFilePath N p s) = Some []
              then native_write N args (console_error (CouldNotResolve p) s1)
              else (case try_block N args p (the (fst (resolveVueFilePath N p s))) s1 of
                      (Inr (Some n), s2) \<Rightarrow> (Inr n, s2)
                    | (Inr None, s2) \<Rightarrow> native_write N args s2
                    | (Inl err, s2) \<Rightarrow>
                        native_write N args (console_error (catch_line err) s2))))"
proof -
  have ex: "\<exists>v. fst (resolveVueFilePath N p s) = Some v"
    by (simp add: resolveVueFilePath_cases split: option.splits)
  then have nn: "fst (resolveVueFilePath N p s) \<noteq> None" by auto
  have fb: "fst (resolveVueFilePath N p s) = Some (slice_0_m3 p) \<and> slice_0_m3 p \<noteq> []"
    if "endsWith p ''.vue.js''"
      and "fst (getTsConfigPaths N p s) = None
         \<or> (\<exists>paths. fst (getTsConfigPaths N p s) = Some paths \<and> \<not> startsWith p (outDir paths))"
  proof -
    from that(1) have "slice_0_m3 p \<noteq> []" by (rule slice_0_m3_placeholder)
    moreover from that(2) have "fst (resolveVueFilePath N p s) = Some (slice_0_m3 p)"
      by (auto simp: resolveVueFilePath_cases)
    ultimately show ?thesis by simp
  qed
  have ws: "writeSync N args s =
          (let s1 = snd (resolveVueFilePath N p s)
           in if fst (resolveVueFilePath N p s) = Some []
              then native_write N args (console_error (CouldNotResolve p) s1)
              else (case try_block N args p (the (fst (resolveVueFilePath N p s))) s1 of
                      (Inr (Some n), s2) \<Rightarrow> (Inr n, s2)
                    | (Inr None, s2) \<Rightarrow> native_write N args s2
                    | (Inl err, s2) \<Rightarrow>
                        native_write N args (console_error (catch_line err) s2)))"
    if "placeholder_write s args" and "fdToPath s (w_fd args) = Some p"
    using that nn
    by (cases "resolveVueFilePath N p s") (auto simp: writeSync_def Let_def)
  from ex fb ws show ?thesis by blast
qed

theorem resolveVueFilePath_never_null_witness:
  "endsWith ''/q/out/Foo.vue.js'' ''.vue.js''
   \<and> fst (getTsConfigPaths (demo (Inr ok_result)) ''/q/out/Foo.vue.js'' start) = None
   \<and> fst (resolveVueFilePath (demo (Inr ok_result)) ''/q/out/Foo.vue.js'' start)
       = Some ''/q/out/Foo.vue''
   \<and> placeholder_write (start\<lparr>fdToPath := [3 \<mapsto> ''/q/out/Foo.vue.js'']\<rparr>)
         \<lparr>w_fd = 3, w_data = Text ''stub'', w_rest = []\<rparr>
   \<and> writeSync (demo (Inr ok_result)) \<lparr>w_fd = 3, w_data = Text ''stub'', w_rest = []\<rparr>
         (start\<lparr>fdToPath := [3 \<mapsto> ''/q/out/Foo.vue.js'']\<rparr>)
       = (Inr 4,
          start\<lparr>fdToPath := [3 \<mapsto> ''/q/out/Foo.vue.js''], world := 1,
                calls := [NWrite \<lparr>w_fd = 3, w_data = Text ''stub'', w_rest = []\<rparr> (Inr 4)]\<rparr>)"
proof -
  let ?N = "demo (Inr ok_result)"
  let ?p = "''/q/out/Foo.vue.js''"
  let ?s = "start\<lparr>fdToPath := [3 \<mapsto> ?p]\<rparr>"
  let ?a = "\<lparr>w_fd = 3, w_data = Text ''stub'', w_rest = []\<rparr>"
  have e: "endsWith ?p ''.vue.js''" by code_simp
  have f: "findTsConfig ?N 0 ?p = None" by code_simp
  have g: "getTsConfigPaths ?N ?p s = (None, s)" if "world s = 0" for s :: "nat state"
    using that f by (simp add: getTsConfigPaths_def)
  have g0: "fst (getTsConfigPaths ?N ?p start) = None" by (simp add: g start_def)
  have r0: "fst (resolveVueFilePath ?N ?p start) = Some ''/q/out/Foo.vue''"
    using resolveVueFilePath_never_null [of ?N ?p start] e g0
    by (simp add: slice_0_m3_def)
  have pw: "placeholder_write ?s ?a" using e by (simp add: placeholder_write_def)
  have fp: "fdToPath ?s (w_fd ?a) = Some ?p" by simp
  have r: "resolveVueFilePath ?N ?p ?s = (Some ''/q/out/Foo.vue'', ?s)"
    by (simp add: resolveVueFilePath_def g start_def slice_0_m3_def)
  have t: "try_block ?N ?a ?p ''/q/out/Foo.vue'' ?s = (Inr None, ?s)"
    by (simp add: try_block_def demo_def mk_node_def demo_disk_def start_def)
  have w: "native_write ?N ?a ?s
             = (Inr 4, start\<lparr>fdToPath := [3 \<mapsto> ?p], world := 1, calls := [NWrite ?a (Inr 4)]\<rparr>)"
    by (simp add: native_write_def demo_def mk_node_def start_def)
  from resolveVueFilePath_never_null [of ?N ?p ?s ?a] pw fp
  have "writeSync ?N ?a ?s = native_write ?N ?a ?s"
    by (simp add: r t Let_def)
  with e g0 r0 pw w show ?thesis by simp
qed

text \<open>
  The claim as stated calls the error branch unreachable. With the
  configuration of \<^verbatim>\<open>/p\<close> naming \<^verbatim>\<open>x.vue.js\<close> as output directory and \<open>/\<close> as
  source root, a write to the file \<^verbatim>\<open>/p/x.vue.js\<close> is a placeholder write, the
  path relative to \<open>outDir\<close> is empty, the join is \<open>/\<close>, the mapped path is the
  empty string, and the wrapped write logs ``Could not resolve Vue file path''.
\<close>

theorem writeSync_could_not_resolve_counterexample:
  "placeholder_write (start\<lparr>fdToPath := [3 \<mapsto> ''/p/x.vue.js'']\<rparr>)
      \<lparr>w_fd = 3, w_data = Text ''stub'', w_rest = []\<rparr>
   \<and> fst (getTsConfigPaths outDir_is_file ''/p/x.vue.js'' start)
       = Some \<lparr>outDir = ''/p/x.vue.js'', rootDir = ''/'', sourceMap = False\<rparr>
   \<and> fst (resolveVueFilePath outDir_is_file ''/p/x.vue.js'' start) = Some []
   \<and> stderr (snd (writeSync outDir_is_file \<lparr>w_fd = 3, w_data = Text ''stub'', w_rest = []\<rparr>
                      (start\<lparr>fdToPath := [3 \<mapsto> ''/p/x.vue.js'']\<rparr>)))
       = [CouldNotResolve ''/p/x.vue.js'']"
  by code_simp

section \<open>The settings read from a configuration file\<close>

lemma normalize_not_Nil: "normalize path \<noteq> []"
  by (simp add: normalize_def Let_def)

lemma join_not_Nil: "join args \<noteq> []"
  by (simp add: join_def Let_def normalize_not_Nil)

lemma findTsConfig_not_Nil: "findTsConfig N w p = Some c \<Longrightarrow> c \<noteq> []"
  by (auto simp: findTsConfig_def walk_up_find tsconfig_in_def join_not_Nil)

lemma truthy_compilerOptions_get_prop:
  "truthy co \<or> co = JObj [] \<Longrightarrow> get_prop co key = Inr (option_of co key)"
  by (cases co) (auto simp: option_of_def split: option.splits)

lemma resolve_option_eq:
  "resolve_option cwd projectRoot v =
     (if truthy v \<and> \<not> is_JStr v then Inl (JsError ''TypeError [ERR_INVALID_ARG_TYPE]'')
      else Inr (dir_option cwd projectRoot v))"
  by (cases v) (simp_all add: resolve_option_def dir_option_def)

lemma settings_of_eq:
  assumes "truthy co \<or> co = JObj []"
  shows "settings_of cwd projectRoot co =
     (if truthy (option_of co ''outDir'') \<and> \<not> is_JStr (option_of co ''outDir'')
         \<or> truthy (option_of co ''rootDir'') \<and> \<not> is_JStr (option_of co ''rootDir'')
      then Inl (JsError ''TypeError [ERR_INVALID_ARG_TYPE]'')
      else Inr \<lparr>outDir = dir_option cwd projectRoot (option_of co ''outDir''),
               rootDir = dir_option cwd projectRoot (option_of co ''rootDir''),
               sourceMap = (option_of co ''sourceMap'' = JBool True)\<rparr>)"
  unfolding settings_of_def
  by (simp add: truthy_compilerOptions_get_prop [OF assms] resolve_option_eq)



lemma read_compilerOptions_truthy:
  "read_compilerOptions N w c = Inr co \<Longrightarrow> truthy co \<or> co = JObj []"
  by (auto simp: read_compilerOptions_def Let_def split: sum.splits if_splits)

lemma read_settings_sourceMap:
  assumes "read_settings N w c = Inr r"
  shows "\<exists>co. read_compilerOptions N w c = Inr co
              \<and> settings_of (process_cwd N) (dirname c) co = Inr r
              \<and> sourceMap r = (get_prop co ''sourceMap'' = Inr (JBool True))"
proof -
  from assms obtain co where co: "read_compilerOptions N w c = Inr co"
    and so: "settings_of (process_cwd N) (dirname c) co = Inr r"
    by (auto simp: read_settings_def split: sum.splits)
  from co have t: "truthy co \<or> co = JObj []" by (rule read_compilerOptions_truthy)
  from so have "sourceMap r = (option_of co ''sourceMap'' = JBool True)"
    unfolding settings_of_eq [OF t] by (auto split: if_splits)
  then have "sourceMap r = (get_prop co ''sourceMap'' = Inr (JBool True))"
    by (simp add: truthy_compilerOptions_get_prop [OF t])
  with co so show ?thesis by blast
qed

lemma getTsConfigPaths_fst:
  assumes "cache_ok N s"
  shows "fst (getTsConfigPaths N p s) =
     (case findTsConfig N (world s) p of
        None \<Rightarrow> None
      | Some c \<Rightarrow> (case read_settings N (world s) c of Inl e \<Rightarrow> None | Inr r \<Rightarrow> Some r))"
proof (cases "findTsConfig N (world s) p")
  case None
  then show ?thesis by (simp add: getTsConfigPaths_def)
next
  case (Some c)
  then have ne: "c \<noteq> []" by (rule findTsConfig_not_Nil)
  show ?thesis
  proof (cases "tsconfigCache s c")
    case None
    with Some ne show ?thesis
      by (simp add: getTsConfigPaths_def split: sum.splits)
  next
    case (Some r)
    with assms have "read_settings N (world s) c = Inr r" by (simp add: cache_ok_def)
    with Some \<open>findTsConfig N (world s) p = Some c\<close> ne show ?thesis
      by (simp add: getTsConfigPaths_def)
  qed
qed

text \<open>
  Claim C7. With a consistent cache, source maps are enabled for an output
  path if and only if no settings record is obtained for it, or the record's
  flag is set; the flag is set exactly when \<^verbatim>\<open>compilerOptions.sourceMap\<close> is the
  boolean \<^verbatim>\<open>true\<close>. No record is obtained when no \<^verbatim>\<open>tsconfig.json\<close> is found,
  when reading or parsing it throws, or when building the record throws. Any
  other value of the option (absent, \<^verbatim>\<open>false\<close>, a string, a number) gives false
  once a record is obtained.
\<close>

theorem shouldGenerateSourceMap_iff:
  assumes "cache_ok N s"
  shows "fst (shouldGenerateSourceMap N p s) =
           (case fst (getTsConfigPaths N p s) of None \<Rightarrow> True | Some r \<Rightarrow> sourceMap r)
         \<and> fst (shouldGenerateSourceMap N p s) =
           (case findTsConfig N (world s) p of
              None \<Rightarrow> True
            | Some c \<Rightarrow>
                (case read_compilerOptions N (world s) c of
                   Inl e \<Rightarrow> True
                 | Inr co \<Rightarrow>
                     (case settings_of (process_cwd N) (dirname c) co of
                        Inl e \<Rightarrow> True
                      | Inr r \<Rightarrow> get_prop co ''sourceMap'' = Inr (JBool True))))"
proof
  show 1: "fst (shouldGenerateSourceMap N p s) =
           (case fst (getTsConfigPaths N p s) of None \<Rightarrow> True | Some r \<Rightarrow> sourceMap r)"
    by (cases "getTsConfigPaths N p s")
       (simp add: shouldGenerateSourceMap_def split: option.splits)
  show "fst (shouldGenerateSourceMap N p s) =
           (case findTsConfig N (world s) p of
              None \<Rightarrow> True
            | Some c \<Rightarrow>
                (case read_compilerOptions N (world s) c of
                   Inl e \<Rightarrow> True
                 | Inr co \<Rightarrow>
                     (case settings_of (process_cwd N) (dirname c) co of
                        Inl e \<Rightarrow> True
                      | Inr r \<Rightarrow> get_prop co ''sourceMap'' = Inr (JBool True))))"
  proof (cases "findTsConfig N (world s) p")
    case None
    then show ?thesis unfolding 1 getTsConfigPaths_fst [OF assms] by simp
  next
    case (Some c)
    show ?thesis
    proof (cases "read_settings N (world s) c")
      case (Inl e)
      with Some show ?thesis
        unfolding 1 getTsConfigPaths_fst [OF assms]
        by (simp add: read_settings_def split: sum.splits)
    next
      case (Inr r)
      from read_settings_sourceMap [OF Inr] Some Inr show ?thesis
        unfolding 1 getTsConfigPaths_fst [OF assms] by auto
    qed
  qed
qed

text \<open>
  The cache is consistent at the start, and the config resolver, the only code
  that writes to it, keeps it consistent.
\<close>

lemma cache_ok_getTsConfigPaths:
  assumes "cache_ok N s"
  shows "cache_ok N (snd (getTsConfigPaths N p s))"
proof (cases "findTsConfig N (world s) p")
  case None
  with assms show ?thesis by (simp add: getTsConfigPaths_def)
next
  case (Some c)
  show ?thesis
  proof (cases "c = [] \<or> tsconfigCache s c \<noteq> None")
    case True
    with Some assms show ?thesis by (auto simp: getTsConfigPaths_def)
  next
    case False
    show ?thesis
    proof (cases "read_settings N (world s) c")
      case (Inl e)
      with Some False assms show ?thesis
        by (simp add: getTsConfigPaths_def cache_ok_def console_error_def)
    next
      case (Inr r)
      with Some False assms show ?thesis
        by (simp add: getTsConfigPaths_def cache_ok_def)
    qed
  qed
qed

lemma cache_ok_start: "cache_ok N start"
  by (simp add: cache_ok_def start_def)

theorem shouldGenerateSourceMap_iff_witness:
  "cache_ok (demo (Inr ok_result)) start
   \<and> fst (getTsConfigPaths (demo (Inr ok_result)) ''/proj/dist/a/b/Foo.vue.js'' start)
       = Some \<lparr>outDir = ''/proj/dist'', rootDir = ''/proj/src'', sourceMap = True\<rparr>
   \<and> fst (shouldGenerateSourceMap (demo (Inr ok_result)) ''/proj/dist/a/b/Foo.vue.js'' start)
   \<and> cache_ok outDir_only start
   \<and> fst (getTsConfigPaths outDir_only ''/p/dist/Foo.vue.js'' start)
       = Some \<lparr>outDir = ''/p/dist'', rootDir = ''/p'', sourceMap = False\<rparr>
   \<and> \<not> fst (shouldGenerateSourceMap outDir_only ''/p/dist/Foo.vue.js'' start)
   \<and> cache_ok null_config start
   \<and> fst (getTsConfigPaths null_config ''/p/dist/Foo.vue.js'' start) = None
   \<and> fst (shouldGenerateSourceMap null_config ''/p/dist/Foo.vue.js'' start)"
proof -
  have g1: "fst (getTsConfigPaths (demo (Inr ok_result)) ''/proj/dist/a/b/Foo.vue.js'' start)
       = Some \<lparr>outDir = ''/proj/dist'', rootDir = ''/proj/src'', sourceMap = True\<rparr>"
    by (simp add: demo_getTsConfigPaths)
  have g2: "fst (getTsConfigPaths outDir_only ''/p/dist/Foo.vue.js'' start)
       = Some \<lparr>outDir = ''/p/dist'', rootDir = ''/p'', sourceMap = False\<rparr>"
    by code_simp
  have g3: "fst (getTsConfigPaths null_config ''/p/dist/Foo.vue.js'' start) = None"
    by code_simp
  from shouldGenerateSourceMap_iff [OF cache_ok_start, of "demo (Inr ok_result)"
      "''/proj/dist/a/b/Foo.vue.js''"] g1
  have s1: "fst (shouldGenerateSourceMap (demo (Inr ok_result)) ''/proj/dist/a/b/Foo.vue.js'' start)"
    by simp
  from shouldGenerateSourceMap_iff [OF cache_ok_start, of outDir_only "''/p/dist/Foo.vue.js''"] g2
  have s2: "\<not> fst (shouldGenerateSourceMap outDir_only ''/p/dist/Foo.vue.js'' start)"
    by simp
  from shouldGenerateSourceMap_iff [OF cache_ok_start, of null_config "''/p/dist/Foo.vue.js''"] g3
  have s3: "fst (shouldGenerateSourceMap null_config ''/p/dist/Foo.vue.js'' start)"
    by simp
  from g1 g2 g3 s1 s2 s3 show ?thesis by (simp add: cache_ok_start)
qed








text \<open>
  Inside string literals the regular expression of the code does not remove
  comments, it cuts the text: a defect, against the code's own comment ``Remove
  comments and parse JSON''. A configuration file without any comment that
  names its schema by a URL is cut at the \<open>//\<close> of the URL, what is left is not
  JSON, and the resolver reports NotFound.
\<close>

lemma getTsConfigPaths_schema_url:
  \<open>\<not> plain_strings schema_text
   \<and> remove_comments schema_text = schema_text
   \<and> strip_comments schema_text = ''{"$schema":"https:''
   \<and> fst (getTsConfigPaths schema_url ''/p/dist/Foo.vue.js'' start) = None
   \<and> stderr (snd (getTsConfigPaths schema_url ''/p/dist/Foo.vue.js'' start))
       = [FailedToParseTsconfig (JsError ''SyntaxError'')]\<close>
  by code_simp

section \<open>What a placeholder write does to the real file system\<close>

text \<open>The config resolver touches the cache and the error log only.\<close>

lemma getTsConfigPaths_frame:
  "calls (snd (getTsConfigPaths N p s)) = calls s
   \<and> world (snd (getTsConfigPaths N p s)) = world s
   \<and> fdToPath (snd (getTsConfigPaths N p s)) = fdToPath s"
  by (simp add: getTsConfigPaths_def console_error_def split: option.splits sum.splits)

lemma resolveVueFilePath_frame:
  "calls (snd (resolveVueFilePath N p s)) = calls s
   \<and> world (snd (resolveVueFilePath N p s)) = world s
   \<and> fdToPath (snd (resolveVueFilePath N p s)) = fdToPath s"
  using getTsConfigPaths_frame [of N p s]
  by (simp add: resolveVueFilePath_cases)

lemma shouldGenerateSourceMap_frame:
  "calls (snd (shouldGenerateSourceMap N p s)) = calls s
   \<and> world (snd (shouldGenerateSourceMap N p s)) = world s
   \<and> fdToPath (snd (shouldGenerateSourceMap N p s)) = fdToPath s"
  using getTsConfigPaths_frame [of N p s]
  by (cases "getTsConfigPaths N p s")
     (simp add: shouldGenerateSourceMap_def split: option.splits)

lemma console_error_frame:
  "calls (console_error l s) = calls s \<and> world (console_error l s) = world s
   \<and> fdToPath (console_error l s) = fdToPath s
   \<and> stderr (console_error l s) = stderr s @ [l]"
  by (simp add: console_error_def)

lemma fold_console_error_frame:
  "calls (fold (\<lambda>e. console_error (f e)) es s) = calls s
   \<and> world (fold (\<lambda>e. console_error (f e)) es s) = world s
   \<and> fdToPath (fold (\<lambda>e. console_error (f e)) es s) = fdToPath s"
  by (induction es arbitrary: s) (simp_all add: console_error_frame)

lemma native_write_calls:
  "calls (snd (native_write N a s)) = calls s @ [NWrite a (fst (native_write N a s))]"
  by (simp add: native_write_eq)

text \<open>
  Claim C2. Take a placeholder write whose source file exists and is read, and
  whose compilation returns a result with at least one diagnostic error. After
  the errors are logged, the real write is called with the arguments of the
  wrapped call, unmodified, and its result is returned; should that call throw,
  the \<^verbatim>\<open>catch\<close> logs it and the same real write is called once more. These are
  the only calls to the real file system: no file is opened, so no style file,
  style map or script map is written.
\<close>

theorem writeSync_compile_errors:
  assumes "placeholder_write s args"
      and "fdToPath s (w_fd args) = Some filePath"
      and "resolveVueFilePath N filePath s = (Some vueFilePath, s1)"
      and "vueFilePath \<noteq> []"
      and "existsSync N (world s1) vueFilePath"
      and "readFileSync N (world s1) vueFilePath = Inr vueCode"
      and "shouldGenerateSourceMap N filePath s1 = (sm, s2)"
      and "compileVueSFC N (world s2) vueCode
             \<lparr>root = dirname vueFilePath, filename = basename vueFilePath,
              autoImportCss = True, autoResolveImports = True, isProd = True,
              ts_target = ''ES2020'', ts_module = ''ESNext'', ts_jsx = ''ReactJSX'',
              ts_sourceMap = sm\<rparr> = Inr result"
      and "errors result \<noteq> []"
      and "s3 = fold (\<lambda>err. console_error (CompileError err)) (errors result)
                  (console_error (ErrorsCompiling vueFilePath) s2)"
  shows "writeSync N args s =
           (case native_write N args s3 of
              (Inr n, s4) \<Rightarrow> (Inr n, s4)
            | (Inl e, s4) \<Rightarrow> native_write N args (console_error (catch_line e) s4))
         \<and> (\<exists>new. calls (snd (writeSync N args s)) = calls s @ new
                     \<and> new \<noteq> [] \<and> list_all (is_write_of args) new)"
proof -
  have tb: "try_block N args filePath vueFilePath s1 =
              (case native_write N args s3 of
                 (Inl e, s4) \<Rightarrow> (Inl e, s4)
               | (Inr n, s4) \<Rightarrow> (Inr (Some n), s4))"
    using assms(5-10) by (simp add: try_block_def Let_def)
  have ws: "writeSync N args s =
              (case try_block N args filePath vueFilePath s1 of
                 (Inr (Some n), s2) \<Rightarrow> (Inr n, s2)
               | (Inr None, s2) \<Rightarrow> native_write N args s2
               | (Inl err, s2) \<Rightarrow> native_write N args (console_error (catch_line err) s2))"
    using assms(1-4) by (simp add: writeSync_def Let_def)
  have eq: "writeSync N args s =
           (case native_write N args s3 of
              (Inr n, s4) \<Rightarrow> (Inr n, s4)
            | (Inl e, s4) \<Rightarrow> native_write N args (console_error (catch_line e) s4))"
    unfolding ws tb by (simp split: prod.splits sum.splits)
  have c1: "calls s1 = calls s"
    using resolveVueFilePath_frame [of N filePath s] assms(3) by simp
  have c2: "calls s2 = calls s1"
    using shouldGenerateSourceMap_frame [of N filePath s1] assms(7) by simp
  have c3: "calls s3 = calls s"
    unfolding assms(10) using c1 c2
    by (simp add: fold_console_error_frame console_error_frame)
  obtain r s4 where nw: "native_write N args s3 = (r, s4)" by (cases "native_write N args s3")
  have c4: "calls s4 = calls s @ [NWrite args r]"
    using native_write_calls [of N args s3] nw c3 by simp
  have "\<exists>new. calls (snd (writeSync N args s)) = calls s @ new
                     \<and> new \<noteq> [] \<and> list_all (is_write_of args) new"
  proof (cases r)
    case (Inr n)
    with eq nw c4 show ?thesis by simp
  next
    case (Inl e)
    with eq nw have "writeSync N args s = native_write N args (console_error (catch_line e) s4)"
      by simp
    then have "calls (snd (writeSync N args s))
                 = calls s @ [NWrite args r,
                     NWrite args (fst (native_write N args (console_error (catch_line e) s4)))]"
      using native_write_calls [of N args "console_error (catch_line e) s4"] c4
      by (simp add: console_error_frame)
    then show ?thesis by simp
  qed
  with eq show ?thesis by simp
qed

lemma open_Foo_fields:
  "world open_Foo = 0" "calls open_Foo = []" "stderr open_Foo = []"
  "tsconfigCache open_Foo = Map.empty"
  "fdToPath open_Foo = [3 \<mapsto> ''/proj/dist/a/b/Foo.vue.js'']"
  by (simp_all add: open_Foo_def start_def)

lemma open_Foo_cached_fields:
  "world open_Foo_cached = 0" "calls open_Foo_cached = []" "stderr open_Foo_cached = []"
  "tsconfigCache open_Foo_cached = [''/proj/tsconfig.json'' \<mapsto> demo_settings]"
  "fdToPath open_Foo_cached = [3 \<mapsto> ''/proj/dist/a/b/Foo.vue.js'']"
  by (simp_all add: open_Foo_cached_def open_Foo_fields)

lemma demo_getTsConfigPaths_open:
  "getTsConfigPaths (demo c) ''/proj/dist/a/b/Foo.vue.js'' open_Foo
     = (Some demo_settings, open_Foo_cached)"
  by (simp add: getTsConfigPaths_def open_Foo_fields demo_findTsConfig demo_read_settings
        demo_settings_def open_Foo_cached_def)

lemma demo_getTsConfigPaths_cached:
  "getTsConfigPaths (demo c) ''/proj/dist/a/b/Foo.vue.js'' open_Foo_cached
     = (Some demo_settings, open_Foo_cached)"
  by (simp add: getTsConfigPaths_def open_Foo_cached_fields demo_findTsConfig)

lemma demo_resolve_open:
  "resolveVueFilePath (demo c) ''/proj/dist/a/b/Foo.vue.js'' open_Foo
     = (Some ''/proj/src/a/b/Foo.vue'', open_Foo_cached)"
proof -
  have "slice_0_m3 (join [''/proj/src'', relative (process_cwd (demo c)) ''/proj/dist''
            ''/proj/dist/a/b/Foo.vue.js'']) = ''/proj/src/a/b/Foo.vue''"
    by code_simp
  moreover have "startsWith ''/proj/dist/a/b/Foo.vue.js'' ''/proj/dist''"
    by (simp add: startsWith_def)
  ultimately show ?thesis
    by (simp add: resolveVueFilePath_def demo_getTsConfigPaths_open Let_def demo_settings_def)
qed

lemma demo_sourceMap_cached:
  "shouldGenerateSourceMap (demo c) ''/proj/dist/a/b/Foo.vue.js'' open_Foo_cached
     = (True, open_Foo_cached)"
  by (simp add: shouldGenerateSourceMap_def demo_getTsConfigPaths_cached demo_settings_def)

lemma placeholder_write_open: "placeholder_write open_Foo write_stub"
  by (simp add: placeholder_write_def open_Foo_fields write_stub_def endsWith_def
        suffix_to_prefix)

lemma demo_native_write:
  "native_write (demo c) write_stub s
     = (Inr 4, s\<lparr>world := Suc (world s), calls := calls s @ [NWrite write_stub (Inr 4)]\<rparr>)"
  for s :: "nat state"
  by (simp add: native_write_def demo_def mk_node_def write_stub_def)

lemma demo_source:
  "existsSync (demo c) 0 ''/proj/src/a/b/Foo.vue''"
  "readFileSync (demo c) 0 ''/proj/src/a/b/Foo.vue'' = Inr ''<template/>''"
  "compileVueSFC (demo c) 0 code opts = c"
  by (simp_all add: demo_def mk_node_def demo_disk_def)

theorem writeSync_compile_errors_witness:
  "placeholder_write open_Foo write_stub
   \<and> existsSync (demo (Inr failed_result)) 0 ''/proj/src/a/b/Foo.vue''
   \<and> errors failed_result \<noteq> []
   \<and> fst (writeSync (demo (Inr failed_result)) write_stub open_Foo) = Inr 4
   \<and> calls (snd (writeSync (demo (Inr failed_result)) write_stub open_Foo))
       = [NWrite write_stub (Inr 4)]
   \<and> stderr (snd (writeSync (demo (Inr failed_result)) write_stub open_Foo))
       = [ErrorsCompiling ''/proj/src/a/b/Foo.vue'', CompileError ''Element is missing end tag.'']"
proof -
  let ?N = "demo (Inr failed_result)"
  let ?s3 = "fold (\<lambda>err. console_error (CompileError err)) (errors failed_result)
               (console_error (ErrorsCompiling ''/proj/src/a/b/Foo.vue'') open_Foo_cached)"
  have fp: "fdToPath open_Foo (w_fd write_stub) = Some ''/proj/dist/a/b/Foo.vue.js''"
    by (simp add: open_Foo_fields write_stub_def)
  have ne: "''/proj/src/a/b/Foo.vue'' \<noteq> []" by simp
  have ex: "existsSync ?N (world open_Foo_cached) ''/proj/src/a/b/Foo.vue''"
    by (simp add: open_Foo_cached_fields demo_source)
  have rd: "readFileSync ?N (world open_Foo_cached) ''/proj/src/a/b/Foo.vue'' = Inr ''<template/>''"
    by (simp add: open_Foo_cached_fields demo_source)
  have cp: "compileVueSFC ?N (world open_Foo_cached) ''<template/>''
             \<lparr>root = dirname ''/proj/src/a/b/Foo.vue'', filename = basename ''/proj/src/a/b/Foo.vue'',
              autoImportCss = True, autoResolveImports = True, isProd = True,
              ts_target = ''ES2020'', ts_module = ''ESNext'', ts_jsx = ''ReactJSX'',
              ts_sourceMap = True\<rparr> = Inr failed_result"
    by (simp add: open_Foo_cached_fields demo_source)
  have er: "errors failed_result \<noteq> []" by (simp add: failed_result_def)
  from writeSync_compile_errors [OF placeholder_write_open fp demo_resolve_open ne ex rd
      demo_sourceMap_cached cp er refl]
  have "writeSync ?N write_stub open_Foo =
      (Inr 4, ?s3\<lparr>world := Suc (world ?s3), calls := calls ?s3 @ [NWrite write_stub (Inr 4)]\<rparr>)"
    by (simp add: demo_native_write)
  moreover have "calls ?s3 = []"
    by (simp add: fold_console_error_frame console_error_frame open_Foo_cached_fields)
  moreover have "stderr ?s3
      = [ErrorsCompiling ''/proj/src/a/b/Foo.vue'', CompileError ''Element is missing end tag.'']"
    by (simp add: failed_result_def console_error_def open_Foo_cached_fields)
  ultimately show ?thesis
    using placeholder_write_open er demo_source(1) by simp
qed

section \<open>Exceptions inside the wrapped write\<close>

lemma native_write_last:
  "native_write N a s = (r, s') \<Longrightarrow> calls s' \<noteq> [] \<and> last (calls s') = NWrite a r"
  by (auto simp: native_write_eq)

lemma emit_compiled_returned:
  assumes "emit_compiled N args filePath sm result s = (Inr n, s')"
  shows "\<exists>js s0. native_write N (args\<lparr>w_data := Text js\<rparr>) s0 = (Inr n, s')"
  using assms unfolding emit_compiled_def Let_def
  by (auto split: prod.splits sum.splits option.splits if_splits)

lemma try_block_returned:
  assumes "try_block N args filePath vueFilePath s1 = (Inr (Some n), s2)"
  shows "calls s2 \<noteq> [] \<and>
         (\<exists>a. last (calls s2) = NWrite a (Inr n)
               \<and> (a = args \<or> (\<exists>js. a = args\<lparr>w_data := Text js\<rparr>)))"
proof -
  from assms consider
      (diagnostics) s0 where "native_write N args s0 = (Inr n, s2)"
    | (compiled) sm result s0 where "emit_compiled N args filePath sm result s0 = (Inr n, s2)"
    unfolding try_block_def Let_def
    by (auto split: prod.splits sum.splits if_splits)
  then show ?thesis
  proof cases
    case diagnostics
    then show ?thesis using native_write_last by blast
  next
    case compiled
    then obtain js s0' where "native_write N (args\<lparr>w_data := Text js\<rparr>) s0' = (Inr n, s2)"
      using emit_compiled_returned by blast
    then show ?thesis using native_write_last by blast
  qed
qed

text \<open>The exceptions of the \<^verbatim>\<open>try\<close> block: reading, compiling, writing.\<close>

lemma try_block_read_throws:
  "existsSync N (world s1) vueFilePath \<Longrightarrow> readFileSync N (world s1) vueFilePath = Inl e
     \<Longrightarrow> try_block N args filePath vueFilePath s1 = (Inl e, s1)"
  by (simp add: try_block_def)

lemma try_block_compile_throws:
  "existsSync N (world s1) vueFilePath \<Longrightarrow> readFileSync N (world s1) vueFilePath = Inr vueCode
     \<Longrightarrow> shouldGenerateSourceMap N filePath s1 = (sm, s2)
     \<Longrightarrow> compileVueSFC N (world s2) vueCode
             \<lparr>root = dirname vueFilePath, filename = basename vueFilePath,
              autoImportCss = True, autoResolveImports = True, isProd = True,
              ts_target = ''ES2020'', ts_module = ''ESNext'', ts_jsx = ''ReactJSX'',
              ts_sourceMap = sm\<rparr> = Inl e
     \<Longrightarrow> try_block N args filePath vueFilePath s1 = (Inl e, s2)"
  by (simp add: try_block_def)

lemma try_block_emit_throws:
  "existsSync N (world s1) vueFilePath \<Longrightarrow> readFileSync N (world s1) vueFilePath = Inr vueCode
     \<Longrightarrow> shouldGenerateSourceMap N filePath s1 = (sm, s2)
     \<Longrightarrow> compileVueSFC N (world s2) vueCode
             \<lparr>root = dirname vueFilePath, filename = basename vueFilePath,
              autoImportCss = True, autoResolveImports = True, isProd = True,
              ts_target = ''ES2020'', ts_module = ''ESNext'', ts_jsx = ''ReactJSX'',
              ts_sourceMap = sm\<rparr> = Inr result
     \<Longrightarrow> errors result = []
     \<Longrightarrow> emit_compiled N args filePath sm result s2 = (Inl e, s3)
     \<Longrightarrow> try_block N args filePath vueFilePath s1 = (Inl e, s3)"
  by (simp add: try_block_def)

text \<open>
  Claim C4. For a placeholder write whose mapping gave a path: when an
  exception \<open>e\<close> leaves the \<^verbatim>\<open>try\<close> block (thrown while reading the source,
  compiling it, or writing the script map, a style map, a style file or the
  compiled script), the \<^verbatim>\<open>catch\<close> logs it and the wrapped write is the real
  write of the original arguments: it returns what that call returns. And for
  every call of the wrapped write whatsoever, what it returns or throws is the
  outcome of the last call it made to the real write, whose arguments are the
  original ones, or the original ones with the compiled script as payload: no
  exception of the interception logic leaves the wrapped write.
\<close>

theorem writeSync_exception_caught:
  "(placeholder_write s args \<longrightarrow> fdToPath s (w_fd args) = Some filePath \<longrightarrow>
      resolveVueFilePath N filePath s = (Some vueFilePath, s1) \<longrightarrow> vueFilePath \<noteq> [] \<longrightarrow>
      try_block N args filePath vueFilePath s1 = (Inl e, s2) \<longrightarrow>
        writeSync N args s = native_write N args (console_error (catch_line e) s2)
        \<and> stderr (snd (writeSync N args s)) = stderr s2 @ [catch_line e]
        \<and> fst (writeSync N args s) = fst (nativeWriteSync N args (world s2))
        \<and> calls (snd (writeSync N args s)) = calls s2 @ [NWrite args (fst (writeSync N args s))])
   \<and> calls (snd (writeSync N args s)) \<noteq> []
   \<and> (\<exists>a. last (calls (snd (writeSync N args s))) = NWrite a (fst (writeSync N args s))
            \<and> (a = args \<or> (\<exists>js. a = args\<lparr>w_data := Text js\<rparr>)))"
proof -
  have caught: "writeSync N args s = native_write N args (console_error (catch_line e) s2)
        \<and> stderr (snd (writeSync N args s)) = stderr s2 @ [catch_line e]
        \<and> fst (writeSync N args s) = fst (nativeWriteSync N args (world s2))
        \<and> calls (snd (writeSync N args s)) = calls s2 @ [NWrite args (fst (writeSync N args s))]"
    if "placeholder_write s args" "fdToPath s (w_fd args) = Some filePath"
       "resolveVueFilePath N filePath s = (Some vueFilePath, s1)" "vueFilePath \<noteq> []"
       "try_block N args filePath vueFilePath s1 = (Inl e, s2)"
  proof -
    from that have "writeSync N args s = native_write N args (console_error (catch_line e) s2)"
      by (simp add: writeSync_def Let_def)
    then show ?thesis by (simp add: native_write_eq console_error_frame)
  qed
  have last_write: "calls s' \<noteq> [] \<and>
      (\<exists>a. last (calls s') = NWrite a r \<and> (a = args \<or> (\<exists>js. a = args\<lparr>w_data := Text js\<rparr>)))"
    if "writeSync N args s = (r, s')" for r s'
  proof (cases "placeholder_write s args")
    case False
    with that have "native_write N args s = (r, s')" by (simp add: writeSync_def)
    then show ?thesis using native_write_last by blast
  next
    case True
    let ?p = "the (fdToPath s (w_fd args))"
    obtain v sa where rv: "resolveVueFilePath N ?p s = (v, sa)"
      by (cases "resolveVueFilePath N ?p s")
    obtain t sb where tb: "try_block N args ?p (the v) sa = (t, sb)"
      by (cases "try_block N args ?p (the v) sa")
    define unresolved where "unresolved = (v = None \<or> v = Some [])"
    have ws: "writeSync N args s =
                (if unresolved
                 then native_write N args (console_error (CouldNotResolve ?p) sa)
                 else (case t of
                         Inr (Some n) \<Rightarrow> (Inr n, sb)
                       | Inr None \<Rightarrow> native_write N args sb
                       | Inl err \<Rightarrow> native_write N args (console_error (catch_line err) sb)))"
      unfolding unresolved_def using True rv tb
      by (simp add: writeSync_def Let_def split: sum.splits option.splits)
    show ?thesis
    proof (cases unresolved)
      case True
      with ws that have "native_write N args (console_error (CouldNotResolve ?p) sa) = (r, s')"
        by simp
      then show ?thesis using native_write_last by blast
    next
      case False
      show ?thesis
      proof (cases t)
        case (Inl err)
        with False ws that
        have "native_write N args (console_error (catch_line err) sb) = (r, s')"
          by simp
        then show ?thesis using native_write_last by blast
      next
        case (Inr res)
        show ?thesis
        proof (cases res)
          case None
          with Inr False ws that have "native_write N args sb = (r, s')" by simp
          then show ?thesis using native_write_last by blast
        next
          case (Some n)
          with Inr False ws that have "r = Inr n" "s' = sb" by simp_all
          with try_block_returned [of N args ?p "the v" sa n sb] tb Inr Some
          show ?thesis by simp
        qed
      qed
    qed
  qed
  have "calls (snd (writeSync N args s)) \<noteq> []
      \<and> (\<exists>a. last (calls (snd (writeSync N args s))) = NWrite a (fst (writeSync N args s))
               \<and> (a = args \<or> (\<exists>js. a = args\<lparr>w_data := Text js\<rparr>)))"
    using last_write [of "fst (writeSync N args s)" "snd (writeSync N args s)"] by simp
  with caught show ?thesis by blast
qed

theorem writeSync_exception_caught_witness:
  "placeholder_write open_Foo write_stub
   \<and> try_block (demo (Inl (JsError ''boom''))) write_stub ''/proj/dist/a/b/Foo.vue.js''
         ''/proj/src/a/b/Foo.vue'' open_Foo_cached
       = (Inl (JsError ''boom''), open_Foo_cached)
   \<and> fst (writeSync (demo (Inl (JsError ''boom''))) write_stub open_Foo) = Inr 4
   \<and> calls (snd (writeSync (demo (Inl (JsError ''boom''))) write_stub open_Foo))
       = [NWrite write_stub (Inr 4)]
   \<and> stderr (snd (writeSync (demo (Inl (JsError ''boom''))) write_stub open_Foo))
       = [FailedToCompile ''boom'']"
proof -
  let ?N = "demo (Inl (JsError ''boom''))"
  have fp: "fdToPath open_Foo (w_fd write_stub) = Some ''/proj/dist/a/b/Foo.vue.js''"
    by (simp add: open_Foo_fields write_stub_def)
  have tb: "try_block ?N write_stub ''/proj/dist/a/b/Foo.vue.js'' ''/proj/src/a/b/Foo.vue''
              open_Foo_cached = (Inl (JsError ''boom''), open_Foo_cached)"
    by (rule try_block_compile_throws [where vueCode = "''<template/>''" and sm = True])
       (simp_all add: open_Foo_cached_fields demo_source demo_sourceMap_cached)
  from writeSync_exception_caught [of open_Foo write_stub "''/proj/dist/a/b/Foo.vue.js''" ?N
      "''/proj/src/a/b/Foo.vue''" open_Foo_cached "JsError ''boom''" open_Foo_cached]
    placeholder_write_open fp demo_resolve_open tb
  have "writeSync ?N write_stub open_Foo
          = native_write ?N write_stub (console_error (catch_line (JsError ''boom'')) open_Foo_cached)"
    by simp
  then have "writeSync ?N write_stub open_Foo
          = (Inr 4, (console_error (FailedToCompile ''boom'') open_Foo_cached)
                      \<lparr>world := 1, calls := [NWrite write_stub (Inr 4)]\<rparr>)"
    by (simp add: demo_native_write console_error_frame open_Foo_cached_fields)
  then show ?thesis
    using placeholder_write_open tb
    by (simp add: console_error_def open_Foo_cached_fields)
qed

section \<open>The open-handle table\<close>















end
